theory Spec2Isabelle
  imports Main "HOL-Library.Word"
begin

section \<open>Dashboard permission filters\<close>

text \<open>
  A shallow embedding of package \<open>permissions\<close>: the legacy role filter
  (\<open>DashboardPermissionFilter\<close>), the fine-grained filter
  (\<open>accessControlDashboardPermissionFilter\<close>), its recursive-query preamble and the
  wildcard resolver \<open>actionsToCheck\<close>.

  Go strings are byte strings and are modelled as \<open>string\<close>. A slice is modelled as
  the list of its elements (a nil slice and an empty slice are both \<open>[]\<close>): every
  \<open>append\<close> of the source copies elements into \<open>args\<close> or into the reused slice
  \<open>permSelectorArgs\<close>, and the one slice that is kept while that array is reused is
  the one that \<open>addRecQry\<close> captures. For that one the subsection on backing arrays has
  slices that point into the arrays of a memory. A panic of the source is a value of type
  \<open>panic\<close>, and a function that can panic returns \<open>panic + 'a\<close>.
\<close>

subsection \<open>Values\<close>

type_synonym int64 = "64 word"

text \<open>\<open>org.RoleType\<close> is a named string type; \<open>dashboards.PermissionType\<close> a named \<open>int\<close>,
  on which the source only compares.\<close>

datatype RoleType = RoleType string

type_synonym PermissionType = int

text \<open>A query parameter is an \<open>interface{}\<close> value: a dynamic type and a value of it,
  or nil.\<close>

datatype param =
    PNil
  | PInt64 int64
  | PInt int
  | PString string
  | PRole RoleType
  | PPermission PermissionType

datatype panic = NilDereference | NegativeRepeatCount

definition pbind :: "panic + 'a \<Rightarrow> ('a \<Rightarrow> panic + 'b) \<Rightarrow> panic + 'b" where
  "pbind m k = (case m of Inl e \<Rightarrow> Inl e | Inr x \<Rightarrow> k x)"

text \<open>\<open>strings.Repeat\<close> panics on a negative count.\<close>

definition Repeat :: "string \<Rightarrow> int \<Rightarrow> panic + string" where
  "Repeat s count =
     (if count < 0 then Inl NegativeRepeatCount else Inr (concat (replicate (nat count) s)))"

text \<open>The pieces of a raw string literal: \<open>tabs n\<close> is an indentation of \<open>n\<close> tab
  characters, \<open>ln n s\<close> a whole line (indentation, text, line feed).\<close>

definition tabs :: "nat \<Rightarrow> string" where
  "tabs n = replicate n (CHR 0x09)"

definition ln :: "nat \<Rightarrow> string \<Rightarrow> string" where
  "ln n s = tabs n @ s @ [CHR 0x0A]"

text \<open>\<open>fmt.Sprintf("%d", n)\<close> for a length.\<close>

definition digit :: "nat \<Rightarrow> char" where
  "digit d =
     (if d = 0 then CHR ''0'' else if d = 1 then CHR ''1'' else if d = 2 then CHR ''2''
      else if d = 3 then CHR ''3'' else if d = 4 then CHR ''4'' else if d = 5 then CHR ''5''
      else if d = 6 then CHR ''6'' else if d = 7 then CHR ''7'' else if d = 8 then CHR ''8''
      else CHR ''9'')"

fun itoa :: "nat \<Rightarrow> string" where
  "itoa n = (if n < 10 then [digit n] else itoa (n div 10) @ [digit (n mod 10)])"

text \<open>The number of positional placeholders of a text.\<close>

definition placeholders :: "string \<Rightarrow> nat" where
  "placeholders s = length (filter (\<lambda>c. c = CHR ''?'') s)"

subsection \<open>The user context\<close>

text \<open>\<open>Permissions\<close> is a \<open>map[int64]map[string][]string\<close>; \<open>None\<close> is the nil map, at
  either level.\<close>

record SignedInUser =
  UserID :: int64
  OrgID :: int64
  Teams :: "int64 list"
  Permissions :: "(int64 \<rightharpoonup> (string \<rightharpoonup> string list) option) option"

text \<open>\<open>u.Permissions[u.OrgID]\<close>: reading a nil map or a missing key gives the zero value,
  the nil map.\<close>

definition orgPermissions :: "SignedInUser \<Rightarrow> (string \<rightharpoonup> string list) option" where
  "orgPermissions u =
     (case Permissions u of
        None \<Rightarrow> None
      | Some pm \<Rightarrow> (case pm (OrgID u) of None \<Rightarrow> None | Some v \<Rightarrow> v))"

text \<open>\<open>permissions[a]\<close>: the granted scopes of an action, none for a nil map or a missing
  key.\<close>

definition scopesOf :: "(string \<rightharpoonup> string list) option \<Rightarrow> string \<Rightarrow> string list" where
  "scopesOf permissions a =
     (case permissions of
        None \<Rightarrow> []
      | Some m \<Rightarrow> (case m a of None \<Rightarrow> [] | Some scopes \<Rightarrow> scopes))"

subsection \<open>Constants and collaborators of the imported packages\<close>

text \<open>
  The packages \<open>org\<close>, \<open>dashboards\<close>, \<open>accesscontrol\<close>, \<open>searchstore\<close> and
  \<open>featuremgmt\<close> are imported by the source and lie outside it. What the source uses of
  them is a parameter of the model: the constants, the wildcard type \<open>'w\<close> with its
  containment test, and the role resolver \<open>UserRolesFilter\<close>, which returns a text and its
  parameters.
\<close>

record 'w deps =
  RoleAdmin :: RoleType
  RoleEditor :: RoleType
  RoleViewer :: RoleType
  PERMISSION_VIEW :: PermissionType
  ActionFoldersRead :: string
  ActionDashboardsCreate :: string
  ActionDashboardsRead :: string
  ActionDashboardsWrite :: string
  ActionAlertingRuleRead :: string
  ActionAlertingRuleCreate :: string
  ScopeDashboardsPrefix :: string
  ScopeFoldersPrefix :: string
  TypeFolder :: string
  TypeDashboard :: string
  TypeAlertFolder :: string
  FlagNestedFolders :: string
  WildcardsFromPrefix :: "string \<Rightarrow> 'w"
  Contains :: "'w \<Rightarrow> string \<Rightarrow> bool"
  UserRolesFilter :: "int64 \<Rightarrow> int64 \<Rightarrow> int64 list \<Rightarrow> string list \<Rightarrow> string \<times> param list"
  GetOrgRoles :: "SignedInUser \<Rightarrow> string list"

subsection \<open>The legacy role filter\<close>

text \<open>\<open>Dialect\<close> is an interface value of which only \<open>BooleanStr\<close> is called; \<open>None\<close> is
  the nil interface.\<close>

record DashboardPermissionFilter =
  OrgRole :: RoleType
  Dialect :: "(bool \<Rightarrow> string) option"
  UserId :: int64
  OrgId :: int64
  PermissionLevel :: PermissionType

text \<open>The five literal pieces of the statement text of \<open>Where\<close>, between the two
  repetitions and the two occurrences of \<open>falseStr\<close>.\<close>

definition sqlHead :: string where
  "sqlHead =
     ln 0 ''('' @
     ln 2 ''dashboard.id IN ('' @
     ln 3 ''SELECT distinct DashboardId from ('' @
     ln 4 ''SELECT d.id AS DashboardId'' @
     ln 5 ''FROM dashboard AS d'' @
     ln 5 ''LEFT JOIN dashboard_acl AS da ON'' @
     ln 6 ''da.dashboard_id = d.id OR'' @
     ln 6 ''da.dashboard_id = d.folder_id'' @
     ln 5 ''WHERE'' @
     ln 6 ''d.org_id = ? AND'' @
     ln 6 ''da.permission >= ? AND'' @
     ln 6 ''('' @
     ln 7 ''da.user_id = ? OR'' @
     ln 7 ''da.team_id IN (SELECT team_id from team_member AS tm WHERE tm.user_id = ?) OR'' @
     tabs 7 @ ''da.role IN (?''"

definition sqlUnion :: string where
  "sqlUnion =
     ln 0 '')'' @
     ln 6 '')'' @
     ln 4 ''UNION'' @
     ln 4 ''SELECT d.id AS DashboardId'' @
     ln 5 ''FROM dashboard AS d'' @
     ln 5 ''LEFT JOIN dashboard AS folder on folder.id = d.folder_id'' @
     ln 5 ''LEFT JOIN dashboard_acl AS da ON'' @
     ln 6 ''('' @
     ln 7 ''-- include default permissions -->'' @
     ln 7 ''da.org_id = -1 AND ('' @
     tabs 7 @ ''  (folder.id IS NOT NULL AND folder.has_acl = ''"

definition sqlOr :: string where
  "sqlOr =
     ln 0 '') OR'' @
     tabs 7 @ ''  (folder.id IS NULL AND d.has_acl = ''"

definition sqlDefault :: string where
  "sqlDefault =
     ln 0 '')'' @
     ln 7 '')'' @
     ln 6 '')'' @
     ln 5 ''WHERE'' @
     ln 6 ''d.org_id = ? AND'' @
     ln 6 ''da.permission >= ? AND'' @
     ln 6 ''('' @
     ln 7 ''da.user_id = ? OR'' @
     tabs 7 @ ''da.role IN (?''"

definition sqlTail :: string where
  "sqlTail =
     ln 0 '')'' @
     ln 6 '')'' @
     ln 3 '') AS a'' @
     ln 2 '')'' @
     ln 1 '')'' @
     tabs 1"

definition DashboardPermissionFilter_Where ::
  "'w deps \<Rightarrow> DashboardPermissionFilter \<Rightarrow> panic + (string \<times> param list)" where
  "DashboardPermissionFilter_Where deps d =
     (if OrgRole d = RoleAdmin deps then Inr ('''', [])
      else
        let okRoles = [PRole (OrgRole d)] @
              (if OrgRole d = RoleEditor deps then [PRole (RoleViewer deps)] else [])
        in
        case Dialect d of
          None \<Rightarrow> Inl NilDereference
        | Some BooleanStr \<Rightarrow>
            let falseStr = BooleanStr False in
            pbind (Repeat '',?'' (int (length okRoles) - 1)) (\<lambda>rep1.
            pbind (Repeat '',?'' (int (length okRoles) - 1)) (\<lambda>rep2.
              let sql = sqlHead @ rep1 @ sqlUnion @ falseStr @ sqlOr @ falseStr @
                        sqlDefault @ rep2 @ sqlTail;
                  params1 = [PInt64 (OrgId d), PPermission (PermissionLevel d),
                             PInt64 (UserId d), PInt64 (UserId d)];
                  params2 = params1 @ okRoles;
                  params3 = params2 @ [PInt64 (OrgId d), PPermission (PermissionLevel d),
                                       PInt64 (UserId d)];
                  params4 = params3 @ okRoles
              in Inr (sql, params4))))"

subsection \<open>The wildcard resolver\<close>

text \<open>The inner loop over the wildcards: \<open>True\<close> when \<open>break outer\<close> is reached for
  this scope.\<close>

fun wildcardsContain :: "('w \<Rightarrow> string \<Rightarrow> bool) \<Rightarrow> 'w list \<Rightarrow> string \<Rightarrow> bool" where
  "wildcardsContain contains [] scope = False"
| "wildcardsContain contains (w # ws) scope =
     (if contains w scope then True else wildcardsContain contains ws scope)"

text \<open>The loop labelled \<open>outer\<close> over the granted scopes: the value of \<open>hasWildcard\<close>
  when it ends.\<close>

fun hasWildcard :: "('w \<Rightarrow> string \<Rightarrow> bool) \<Rightarrow> 'w list \<Rightarrow> string list \<Rightarrow> bool" where
  "hasWildcard contains wildcards [] = False"
| "hasWildcard contains wildcards (scope # scopes) =
     (if wildcardsContain contains wildcards scope then True
      else hasWildcard contains wildcards scopes)"

text \<open>The loop over the actions, with the slice \<open>toCheck\<close> built so far.\<close>

fun actionsLoop ::
  "'w deps \<Rightarrow> string list \<Rightarrow> (string \<rightharpoonup> string list) option \<Rightarrow> 'w list \<Rightarrow>
   param list \<Rightarrow> param list" where
  "actionsLoop deps [] permissions wildcards toCheck = toCheck"
| "actionsLoop deps (a # actions) permissions wildcards toCheck =
     actionsLoop deps actions permissions wildcards
       (if \<not> hasWildcard (Contains deps) wildcards (scopesOf permissions a)
        then toCheck @ [PString a] else toCheck)"

definition actionsToCheck ::
  "'w deps \<Rightarrow> string list \<Rightarrow> (string \<rightharpoonup> string list) option \<Rightarrow> 'w list \<Rightarrow> param list" where
  "actionsToCheck deps actions permissions wildcards =
     actionsLoop deps actions permissions wildcards []"

subsection \<open>The fine-grained filter\<close>

text \<open>The struct \<open>clause\<close> embeds a string, here the field \<open>str\<close>.\<close>

record clause =
  str :: string
  params :: "param list"

text \<open>\<open>features\<close> is an interface value of which only \<open>IsEnabled\<close> is called; \<open>None\<close>
  is the nil interface. \<open>user\<close> is a pointer; \<open>None\<close> is nil.\<close>

record accessControlDashboardPermissionFilter =
  user :: "SignedInUser option"
  dashboardActions :: "string list"
  folderActions :: "string list"
  features :: "(string \<Rightarrow> bool) option"
  where' :: clause
  recQueries :: "clause list"

definition Where :: "accessControlDashboardPermissionFilter \<Rightarrow> string \<times> param list" where
  "Where f = (str (where' f), params (where' f))"

text \<open>The text of a recursive query definition, \<open>fmt.Sprintf\<close> of the three strings
  into the raw literal.\<close>

definition recQryText :: "string \<Rightarrow> string \<Rightarrow> string" where
  "recQryText queryName whereUIDSelect =
     queryName @ ln 0 '' AS ('' @
     tabs 3 @ ''SELECT uid, parent_uid, org_id FROM folder WHERE uid IN '' @
     whereUIDSelect @ ln 0 [] @
     tabs 3 @ ''UNION ALL SELECT f.uid, f.parent_uid, f.org_id FROM folder f INNER JOIN '' @
     queryName @ ln 0 '' r ON f.parent_uid = r.uid and f.org_id = r.org_id'' @
     tabs 2 @ '')''"

text \<open>On lists, \<open>make\<close> and \<open>copy\<close> give a list equal to \<open>whereParams\<close>; the
  subsection on backing arrays has them on a memory.\<close>

definition addRecQry ::
  "string \<Rightarrow> string \<Rightarrow> param list \<Rightarrow> accessControlDashboardPermissionFilter \<Rightarrow>
   accessControlDashboardPermissionFilter" where
  "addRecQry queryName whereUIDSelect whereParams f =
     (let c = whereParams in
      f\<lparr>recQueries := recQueries f @
         [\<lparr>str = recQryText queryName whereUIDSelect, params = c\<rparr>]\<rparr>)"

text \<open>The loop of \<open>With\<close> over \<open>f.recQueries[1:]\<close>, on the buffer and the parameters.\<close>

fun WithLoop :: "clause list \<Rightarrow> string \<times> param list \<Rightarrow> string \<times> param list" where
  "WithLoop [] (sb, ps) = (sb, ps)"
| "WithLoop (r # rs) (sb, ps) = WithLoop rs (sb @ '','' @ str r, ps @ params r)"

definition With :: "accessControlDashboardPermissionFilter \<Rightarrow> string \<times> param list" where
  "With f =
     (if length (recQueries f) > 0
      then WithLoop (drop 1 (recQueries f))
             (''WITH RECURSIVE '' @ str (recQueries f ! 0), params (recQueries f ! 0))
      else ([], []))"

text \<open>The local variables of \<open>buildClauses\<close> that are written to.\<close>

record locals =
  builder :: string
  args :: "param list"
  permSelector :: string
  permSelectorArgs :: "param list"

text \<open>The condition on the actions, written three times by \<open>buildClauses\<close> (to
  \<open>builder\<close> and \<open>args\<close> for the dashboards, to \<open>permSelector\<close> and \<open>permSelectorArgs\<close>
  for the two folder selections): the text to write and the values to append.\<close>

definition actionFilter :: "param list \<Rightarrow> panic + (string \<times> param list)" where
  "actionFilter toCheck =
     (if length toCheck = 1 then Inr ('' AND action = ?'', [toCheck ! 0])
      else
        pbind (Repeat '', ?'' (int (length toCheck) - 1)) (\<lambda>rep.
          Inr ('' AND action IN (?'' @ rep @
               '') GROUP BY role_id, scope HAVING COUNT(action) = ?'',
               toCheck @ [PInt (int (length toCheck))])))"

text \<open>The block \<open>if len(f.dashboardActions) > 0\<close>.\<close>

definition dashboardBranch ::
  "'w deps \<Rightarrow> (string \<rightharpoonup> string list) option \<Rightarrow> 'w \<Rightarrow> 'w \<Rightarrow> string \<Rightarrow> param list \<Rightarrow>
   accessControlDashboardPermissionFilter \<times> locals \<Rightarrow>
   panic + (accessControlDashboardPermissionFilter \<times> locals)" where
  "dashboardBranch deps permissions dashWildcards folderWildcards rolesFilter roleParams st =
     (case st of (f, l) \<Rightarrow>
      if length (dashboardActions f) > 0 then
        let toCheck = actionsToCheck deps (dashboardActions f) permissions
                        [dashWildcards, folderWildcards] in
        if length toCheck > 0 then
          pbind (actionFilter toCheck) (\<lambda>(dashText, dashArgs).
          let l1 = l\<lparr>builder := builder l @
                      ''(dashboard.uid IN (SELECT substr(scope, 16) FROM permission WHERE scope LIKE 'dashboards:uid:%'' @ [CHR 0x27] @
                      rolesFilter @ dashText @
                      '') AND NOT dashboard.is_folder)'' @
                      '' OR '' @
                      ''(dashboard.folder_id IN (SELECT id FROM dashboard as d '',
                    args := args l @ roleParams @ dashArgs\<rparr> in
          pbind (actionFilter toCheck) (\<lambda>(selText, selArgs).
          let l2 = l1\<lparr>permSelector := permSelector l1 @
                        ''(SELECT substr(scope, 13) FROM permission WHERE scope LIKE 'folders:uid:%' '' @
                        rolesFilter @ selText @ '')'',
                      permSelectorArgs := permSelectorArgs l1 @ roleParams @ selArgs\<rparr> in
          case features f of
            None \<Rightarrow> Inl NilDereference
          | Some IsEnabled \<Rightarrow>
              let (f3, l3) =
                (if IsEnabled (FlagNestedFolders deps) then
                   let recQueryName = ''RecQry'' @ itoa (length (recQueries f)) in
                   (addRecQry recQueryName (permSelector l2) (permSelectorArgs l2) f,
                    l2\<lparr>builder := builder l2 @
                         ''WHERE d.uid IN (SELECT uid FROM '' @ recQueryName @ '')''\<rparr>)
                 else
                   (f, l2\<lparr>builder := builder l2 @ ''WHERE d.uid IN '' @ permSelector l2,
                          args := args l2 @ permSelectorArgs l2\<rparr>))
              in Inr (f3, l3\<lparr>builder := builder l3 @ '') AND NOT dashboard.is_folder)''\<rparr>)))
        else Inr (f, l\<lparr>builder := builder l @ ''NOT dashboard.is_folder''\<rparr>)
      else Inr (f, l))"

text \<open>\<open>permSelector.Reset()\<close> and \<open>permSelectorArgs = permSelectorArgs[:0]\<close>.\<close>

definition recycle :: "locals \<Rightarrow> locals" where
  "recycle l = l\<lparr>permSelector := [], permSelectorArgs := take 0 (permSelectorArgs l)\<rparr>"

text \<open>The block \<open>if len(f.folderActions) > 0\<close>.\<close>

definition folderBranch ::
  "'w deps \<Rightarrow> (string \<rightharpoonup> string list) option \<Rightarrow> 'w \<Rightarrow> string \<Rightarrow> param list \<Rightarrow>
   accessControlDashboardPermissionFilter \<times> locals \<Rightarrow>
   panic + (accessControlDashboardPermissionFilter \<times> locals)" where
  "folderBranch deps permissions folderWildcards rolesFilter roleParams st =
     (case st of (f, l) \<Rightarrow>
      if length (folderActions f) > 0 then
        let l0 = (if length (dashboardActions f) > 0
                  then l\<lparr>builder := builder l @ '' OR ''\<rparr> else l);
            toCheck = actionsToCheck deps (folderActions f) permissions [folderWildcards] in
        if length toCheck > 0 then
          pbind (actionFilter toCheck) (\<lambda>(selText, selArgs).
          let l1 = l0\<lparr>builder := builder l0 @ ''(dashboard.uid IN '',
                      permSelector := permSelector l0 @
                        ''(SELECT substr(scope, 13) FROM permission WHERE scope LIKE 'folders:uid:%'' @ [CHR 0x27] @
                        rolesFilter @ selText @ '')'',
                      permSelectorArgs := permSelectorArgs l0 @ roleParams @ selArgs\<rparr> in
          case features f of
            None \<Rightarrow> Inl NilDereference
          | Some IsEnabled \<Rightarrow>
              let (f2, l2) =
                (if IsEnabled (FlagNestedFolders deps) then
                   let recQueryName = ''RecQry'' @ itoa (length (recQueries f)) in
                   (addRecQry recQueryName (permSelector l1) (permSelectorArgs l1) f,
                    l1\<lparr>builder := builder l1 @
                         ''(SELECT uid FROM '' @ recQueryName @ '')''\<rparr>)
                 else
                   (f, l1\<lparr>builder := builder l1 @ permSelector l1,
                          args := args l1 @ permSelectorArgs l1\<rparr>))
              in Inr (f2, l2\<lparr>builder := builder l2 @ '' AND dashboard.is_folder)''\<rparr>))
        else Inr (f, l0\<lparr>builder := builder l0 @ ''dashboard.is_folder''\<rparr>)
      else Inr (f, l))"

definition buildClauses ::
  "'w deps \<Rightarrow> accessControlDashboardPermissionFilter \<Rightarrow>
   panic + accessControlDashboardPermissionFilter" where
  "buildClauses deps f =
     (case user f of
        None \<Rightarrow> Inr (f\<lparr>where' := \<lparr>str = ''(1 = 0)'', params = []\<rparr>\<rparr>)
      | Some u \<Rightarrow>
          if Permissions u = None \<or> orgPermissions u = None
          then Inr (f\<lparr>where' := \<lparr>str = ''(1 = 0)'', params = []\<rparr>\<rparr>)
          else
            let dashWildcards = WildcardsFromPrefix deps (ScopeDashboardsPrefix deps);
                folderWildcards = WildcardsFromPrefix deps (ScopeFoldersPrefix deps);
                (filter, roleParams) =
                  UserRolesFilter deps (OrgID u) (UserID u) (Teams u) (GetOrgRoles deps u);
                rolesFilter = '' AND role_id IN(SELECT id FROM role '' @ filter @ '') '';
                l = \<lparr>builder = ''('', args = [], permSelector = [], permSelectorArgs = []\<rparr>
            in
            pbind (dashboardBranch deps (orgPermissions u) dashWildcards folderWildcards
                     rolesFilter roleParams (f, l)) (\<lambda>(f1, l1).
            pbind (folderBranch deps (orgPermissions u) folderWildcards rolesFilter roleParams
                     (f1, recycle l1)) (\<lambda>(f2, l2).
              let l3 = l2\<lparr>builder := builder l2 @ '')''\<rparr> in
              Inr (f2\<lparr>where' := \<lparr>str = builder l3, params = args l3\<rparr>\<rparr>))))"

definition NewAccessControlDashboardPermissionFilter ::
  "'w deps \<Rightarrow> SignedInUser option \<Rightarrow> PermissionType \<Rightarrow> string \<Rightarrow> (string \<Rightarrow> bool) option \<Rightarrow>
   panic + accessControlDashboardPermissionFilter" where
  "NewAccessControlDashboardPermissionFilter deps usr permissionLevel queryType feats =
     (let needEdit = permissionLevel > PERMISSION_VIEW deps;
          (folderActs, dashboardActs) =
            (if queryType = TypeFolder deps then
               ([ActionFoldersRead deps] @
                  (if needEdit then [ActionDashboardsCreate deps] else []),
                [])
             else if queryType = TypeDashboard deps then
               ([],
                [ActionDashboardsRead deps] @
                  (if needEdit then [ActionDashboardsWrite deps] else []))
             else if queryType = TypeAlertFolder deps then
               ([ActionFoldersRead deps, ActionAlertingRuleRead deps] @
                  (if needEdit then [ActionAlertingRuleCreate deps] else []),
                [])
             else
               ([ActionFoldersRead deps] @
                  (if needEdit then [ActionDashboardsCreate deps] else []),
                [ActionDashboardsRead deps] @
                  (if needEdit then [ActionDashboardsWrite deps] else [])));
          f = \<lparr>user = usr, dashboardActions = dashboardActs, folderActions = folderActs,
               features = feats, where' = \<lparr>str = [], params = []\<rparr>, recQueries = []\<rparr>
      in buildClauses deps f)"

subsection \<open>Slices over backing arrays\<close>

text \<open>
  For the parameters captured by \<open>addRecQry\<close> the sharing of backing arrays matters. Here
  a slice is a window (\<open>off\<close>, \<open>len\<close>, \<open>cap\<close>) on a backing array of the memory, or nil
  (\<open>base = None\<close>), and the memory gives each allocated array its cells; the arrays below
  \<open>limit\<close> are the allocated ones.
\<close>

type_synonym addr = nat

record slice =
  base :: "addr option"
  off :: nat
  len :: nat
  cap :: nat

record memory =
  arrays :: "addr \<Rightarrow> param list"
  limit :: addr

text \<open>The elements seen through a slice.\<close>

definition elems :: "memory \<Rightarrow> slice \<Rightarrow> param list" where
  "elems m s =
     (case base s of None \<Rightarrow> [] | Some a \<Rightarrow> take (len s) (drop (off s) (arrays m a)))"

text \<open>Writing the values \<open>xs\<close> into the cells of array \<open>a\<close> from position \<open>i\<close> on.\<close>

definition store :: "addr \<Rightarrow> nat \<Rightarrow> param list \<Rightarrow> memory \<Rightarrow> memory" where
  "store a i xs m =
     m\<lparr>arrays := (arrays m)
        (a := take i (arrays m a) @ xs @ drop (i + length xs) (arrays m a))\<rparr>"

text \<open>\<open>make([]interface{}, n)\<close>: a new array of \<open>n\<close> nil values.\<close>

definition makeSlice :: "nat \<Rightarrow> memory \<Rightarrow> slice \<times> memory" where
  "makeSlice n m =
     (\<lparr>base = Some (limit m), off = 0, len = n, cap = n\<rparr>,
      m\<lparr>arrays := (arrays m)(limit m := replicate n PNil), limit := Suc (limit m)\<rparr>)"

text \<open>\<open>copy(dst, src)\<close>: the first \<open>min(len(dst), len(src))\<close> elements of \<open>src\<close> are
  written to the cells of \<open>dst\<close>.\<close>

definition copySlice :: "slice \<Rightarrow> slice \<Rightarrow> memory \<Rightarrow> memory" where
  "copySlice dst src m =
     (case base dst of
        None \<Rightarrow> m
      | Some a \<Rightarrow> store a (off dst) (take (min (len dst) (len src)) (elems m src)) m)"

text \<open>\<open>append(s, xs...)\<close>: in place when the capacity suffices, else into a new array,
  whose capacity the runtime chooses (\<open>growth\<close>, given the old capacity and the length
  needed) and which is never less than the length needed.\<close>

definition appendSlice ::
  "(nat \<Rightarrow> nat \<Rightarrow> nat) \<Rightarrow> slice \<Rightarrow> param list \<Rightarrow> memory \<Rightarrow> slice \<times> memory" where
  "appendSlice growth s xs m =
     (if len s + length xs \<le> cap s then
        (case base s of
           None \<Rightarrow> (s, m)
         | Some a \<Rightarrow> (s\<lparr>len := len s + length xs\<rparr>, store a (off s + len s) xs m))
      else
        let need = len s + length xs;
            newcap = max need (growth (cap s) need)
        in (\<lparr>base = Some (limit m), off = 0, len = need, cap = newcap\<rparr>,
            m\<lparr>arrays := (arrays m)
                 (limit m := elems m s @ xs @ replicate (newcap - need) PNil),
              limit := Suc (limit m)\<rparr>))"

text \<open>A slice is valid in a memory when its window lies within an allocated array.\<close>

definition validSlice :: "memory \<Rightarrow> slice \<Rightarrow> bool" where
  "validSlice m s =
     (case base s of
        None \<Rightarrow> len s = 0 \<and> cap s = 0
      | Some a \<Rightarrow> a < limit m \<and> len s \<le> cap s \<and> off s + cap s \<le> length (arrays m a))"

text \<open>A clause whose parameters are a slice, and \<open>addRecQry\<close> on the memory: \<open>c\<close> is made,
  filled by \<open>copy\<close> and stored in the appended clause.\<close>

record memClause =
  mstr :: string
  mparams :: slice

definition addRecQryMem ::
  "string \<Rightarrow> string \<Rightarrow> slice \<Rightarrow> memClause list \<times> memory \<Rightarrow> memClause list \<times> memory" where
  "addRecQryMem queryName whereUIDSelect whereParams st =
     (case st of (recQs, m) \<Rightarrow>
        let (c, m1) = makeSlice (len whereParams) m;
            m2 = copySlice c whereParams m1
        in (recQs @ [\<lparr>mstr = recQryText queryName whereUIDSelect, mparams = c\<rparr>], m2))"

text \<open>What the caller can do with its slice afterwards: reslice it to length zero
  (\<open>s = s[:0]\<close>), append to it (\<open>s = append(s, xs...)\<close>), assign an element
  (\<open>s[i] = v\<close>, which panics and ends the run when \<open>i\<close> is out of range), and pass it
  to \<open>addRecQry\<close> again. \<open>buildClauses\<close> does the first, the second and the last
  between its two branches.\<close>

datatype sliceOp =
    Reslice0
  | Append "param list"
  | Assign nat param
  | Capture string string

fun runOps ::
  "(nat \<Rightarrow> nat \<Rightarrow> nat) \<Rightarrow> sliceOp list \<Rightarrow> slice \<times> memClause list \<times> memory \<Rightarrow>
   slice \<times> memClause list \<times> memory" where
  "runOps growth [] st = st"
| "runOps growth (Reslice0 # ops) (s, recQs, m) = runOps growth ops (s\<lparr>len := 0\<rparr>, recQs, m)"
| "runOps growth (Append xs # ops) (s, recQs, m) =
     (case appendSlice growth s xs m of (s', m') \<Rightarrow> runOps growth ops (s', recQs, m'))"
| "runOps growth (Assign i v # ops) (s, recQs, m) =
     (case base s of
        Some a \<Rightarrow> if i < len s then runOps growth ops (s, recQs, store a (off s + i) [v] m)
                  else (s, recQs, m)
      | None \<Rightarrow> (s, recQs, m))"
| "runOps growth (Capture queryName whereUIDSelect # ops) (s, recQs, m) =
     (case addRecQryMem queryName whereUIDSelect s (recQs, m) of
        (recQs', m') \<Rightarrow> runOps growth ops (s, recQs', m'))"

subsection \<open>Reference notions for the statements\<close>

text \<open>The strings of a list joined by a separator.\<close>

fun joinWith :: "string \<Rightarrow> string list \<Rightarrow> string" where
  "joinWith sep [] = []"
| "joinWith sep [x] = x"
| "joinWith sep (x # y # zs) = x @ sep @ joinWith sep (y # zs)"

text \<open>An action is covered when one of its granted scopes is contained by one of the
  wildcards.\<close>

definition covered ::
  "'w deps \<Rightarrow> (string \<rightharpoonup> string list) option \<Rightarrow> 'w list \<Rightarrow> string \<Rightarrow> bool" where
  "covered deps permissions wildcards a =
     (\<exists>scope \<in> set (scopesOf permissions a). \<exists>w \<in> set wildcards. Contains deps w scope)"

text \<open>For \<open>k\<close> actions to verify, the number of placeholders of the condition on the
  actions and its parameters: one action alone, or the \<open>k\<close> actions followed by the
  count \<open>k\<close>.\<close>

definition expectedPlaceholders :: "nat \<Rightarrow> nat" where
  "expectedPlaceholders k = (if k = 1 then 1 else k + 1)"

definition expectedParams :: "string list \<Rightarrow> param list" where
  "expectedParams actions =
     (if length actions = 1 then [PString (actions ! 0)]
      else map PString actions @ [PInt (int (length actions))])"

text \<open>What one scope-membership subquery carries for the list \<open>toCheck\<close> that the
  wildcard resolver returned: nothing when the list is empty (no subquery is written),
  else the parameters of the role-resolver fragment followed by those of the condition
  on the actions, and as many placeholders.\<close>

definition subqueryParams :: "param list \<Rightarrow> param list \<Rightarrow> param list" where
  "subqueryParams roleParams toCheck =
     (if toCheck = [] then []
      else roleParams @
           (if length toCheck = 1 then [toCheck ! 0]
            else toCheck @ [PInt (int (length toCheck))]))"

definition subqueryPlaceholders :: "string \<Rightarrow> param list \<Rightarrow> nat" where
  "subqueryPlaceholders rolesFilter toCheck =
     (if toCheck = [] then 0
      else placeholders rolesFilter +
           (if length toCheck = 1 then 1 else length toCheck + 1))"

subsection \<open>An instance for evaluation\<close>

text \<open>One choice of the constants and collaborators, a user, and inputs on which the
  definitions are evaluated.\<close>

definition exampleDeps :: "string list deps" where
  "exampleDeps = \<lparr>
     RoleAdmin = RoleType ''Admin'',
     RoleEditor = RoleType ''Editor'',
     RoleViewer = RoleType ''Viewer'',
     PERMISSION_VIEW = 1,
     ActionFoldersRead = ''folders:read'',
     ActionDashboardsCreate = ''dashboards:create'',
     ActionDashboardsRead = ''dashboards:read'',
     ActionDashboardsWrite = ''dashboards:write'',
     ActionAlertingRuleRead = ''alert.rules:read'',
     ActionAlertingRuleCreate = ''alert.rules:create'',
     ScopeDashboardsPrefix = ''dashboards:uid:'',
     ScopeFoldersPrefix = ''folders:uid:'',
     TypeFolder = ''dash-folder'',
     TypeDashboard = ''dash-db'',
     TypeAlertFolder = ''dash-folder-alerting'',
     FlagNestedFolders = ''nestedFolders'',
     WildcardsFromPrefix = (\<lambda>prefix.
        if prefix = ''dashboards:uid:'' then [''*'', ''dashboards:*'', ''dashboards:uid:*'']
        else [''*'', ''folders:*'', ''folders:uid:*'']),
     Contains = (\<lambda>ws scope. scope \<in> set ws),
     UserRolesFilter = (\<lambda>orgID userID teamIDs roles.
        (''WHERE user_id = ? AND org_id = ?'', [PInt64 userID, PInt64 orgID])),
     GetOrgRoles = (\<lambda>u. [''Viewer''])\<rparr>"

definition examplePermissions :: "string \<rightharpoonup> string list" where
  "examplePermissions =
     [''dashboards:read'' \<mapsto> [''dashboards:uid:abc''],
      ''dashboards:write'' \<mapsto> [''dashboards:uid:abc''],
      ''folders:read'' \<mapsto> [''folders:uid:xyz'', ''folders:uid:*'']]"

definition exampleUser :: SignedInUser where
  "exampleUser =
     \<lparr>UserID = 7, OrgID = 1, Teams = [], Permissions = Some [1 \<mapsto> Some examplePermissions]\<rparr>"

definition exampleLegacy :: DashboardPermissionFilter where
  "exampleLegacy =
     \<lparr>OrgRole = RoleType ''Editor'', Dialect = Some (\<lambda>b. if b then ''1'' else ''0''),
      UserId = 7, OrgId = 1, PermissionLevel = 1\<rparr>"

definition exampleMemory :: memory where
  "exampleMemory =
     \<lparr>arrays = (\<lambda>a. if a = 0 then [PInt64 7, PInt64 1, PString ''dashboards:read'', PNil]
                     else []),
      limit = 1\<rparr>"

definition exampleSlice :: slice where
  "exampleSlice = \<lparr>base = Some 0, off = 0, len = 3, cap = 4\<rparr>"

definition exampleWildcardUser :: SignedInUser where
  "exampleWildcardUser =
     \<lparr>UserID = 8, OrgID = 1, Teams = [],
      Permissions = Some [1 \<mapsto> Some [''dashboards:read'' \<mapsto> [''dashboards:uid:*''],
                                      ''folders:read'' \<mapsto> [''folders:uid:*'']]]\<rparr>"

definition exampleMixed :: accessControlDashboardPermissionFilter where
  "exampleMixed =
     \<lparr>user = Some exampleUser,
      dashboardActions = [''dashboards:read'', ''dashboards:write''],
      folderActions = [''folders:read'', ''dashboards:create''],
      features = Some (\<lambda>flag. False),
      where' = \<lparr>str = [], params = []\<rparr>, recQueries = []\<rparr>"

definition exampleNested :: accessControlDashboardPermissionFilter where
  "exampleNested =
     \<lparr>user = Some exampleUser, dashboardActions = [],
      folderActions = [''dashboards:create''], features = Some (\<lambda>flag. True),
      where' = \<lparr>str = [], params = []\<rparr>, recQueries = []\<rparr>"

definition exampleOps :: "sliceOp list" where
  "exampleOps =
     [Reslice0, Append [PInt64 9, PInt64 2], Append [PString ''folders:read''],
      Capture ''RecQry1'' ''(SELECT 2)'']"

definition exampleCapture :: "memClause list \<times> memory" where
  "exampleCapture = addRecQryMem ''RecQry0'' ''(SELECT 1)'' exampleSlice ([], exampleMemory)"

definition exampleRun :: "slice \<times> memClause list \<times> memory" where
  "exampleRun =
     runOps (\<lambda>oldcap need. 2 * oldcap) exampleOps
       (exampleSlice, fst exampleCapture, snd exampleCapture)"


section \<open>Properties\<close>

subsection \<open>Counting placeholders\<close>

declare itoa.simps [simp del]

lemma placeholders_Nil [simp]: "placeholders [] = 0"
  by (simp add: placeholders_def)

lemma placeholders_Cons [simp]:
  "placeholders (c # s) = (if c = CHR ''?'' then Suc (placeholders s) else placeholders s)"
  by (simp add: placeholders_def)

lemma placeholders_append [simp]: "placeholders (s @ t) = placeholders s + placeholders t"
  by (simp add: placeholders_def)

lemma placeholders_tabs [simp]: "placeholders (tabs n) = 0"
  by (induction n) (simp_all add: tabs_def)

lemma placeholders_ln [simp]: "placeholders (ln n s) = placeholders s"
  by (simp add: ln_def)

lemma placeholders_repeat: "placeholders (concat (replicate n s)) = n * placeholders s"
  by (induction n) simp_all

lemma digit_not_placeholder: "digit d \<noteq> CHR ''?''"
  by (simp add: digit_def)

lemma placeholders_itoa [simp]: "placeholders (itoa n) = 0"
proof (induction n rule: itoa.induct)
  case (1 n)
  show ?case
  proof (cases "n < 10")
    case True
    then show ?thesis by (subst itoa.simps) (simp add: digit_not_placeholder)
  next
    case False
    with 1 show ?thesis by (subst itoa.simps) (simp add: digit_not_placeholder)
  qed
qed

lemma placeholders_recQryText [simp]:
  "placeholders (recQryText queryName whereUIDSelect) =
     2 * placeholders queryName + placeholders whereUIDSelect"
  by (simp add: recQryText_def)

lemma placeholders_sqlHead: "placeholders sqlHead = 5"
  by (simp add: sqlHead_def)

lemma placeholders_sqlUnion: "placeholders sqlUnion = 0"
  by (simp add: sqlUnion_def)

lemma placeholders_sqlOr: "placeholders sqlOr = 0"
  by (simp add: sqlOr_def)

lemma placeholders_sqlDefault: "placeholders sqlDefault = 4"
  by (simp add: sqlDefault_def)

lemma placeholders_sqlTail: "placeholders sqlTail = 0"
  by (simp add: sqlTail_def)

subsection \<open>The legacy role filter\<close>

lemma legacy_returns:
  assumes "Dialect d = Some b"
  shows "\<exists>sql ps. DashboardPermissionFilter_Where deps d = Inr (sql, ps)"
  using assms by (simp add: DashboardPermissionFilter_Where_def Let_def pbind_def Repeat_def)

lemma legacy_balanced:
  assumes "DashboardPermissionFilter_Where deps d = Inr (sql, ps)"
    and "\<forall>b. Dialect d = Some b \<longrightarrow> placeholders (b False) = 0"
  shows "placeholders sql = length ps"
  using assms
  by (auto simp add: DashboardPermissionFilter_Where_def Let_def pbind_def Repeat_def
      placeholders_sqlHead placeholders_sqlUnion placeholders_sqlOr placeholders_sqlDefault
      placeholders_sqlTail placeholders_repeat
      split: if_splits option.splits)

text \<open>
  C8. For the legacy role filter, when the organization role is the Admin role, \<open>Where\<close>
  returns the empty text and the empty (nil) parameter list, whatever the permission
  level, the organization and user identifiers, and the dialect (even a nil one).
\<close>

theorem legacy_admin_unfiltered:
  "DashboardPermissionFilter_Where deps
     \<lparr>OrgRole = RoleAdmin deps, Dialect = dialect, UserId = userId, OrgId = orgId,
      PermissionLevel = permissionLevel\<rparr> = Inr ([], [])"
  by (simp add: DashboardPermissionFilter_Where_def)

subsection \<open>The wildcard resolver\<close>

lemma wildcardsContain_iff:
  "wildcardsContain contains ws scope \<longleftrightarrow> (\<exists>w \<in> set ws. contains w scope)"
  by (induction ws) auto

lemma hasWildcard_iff:
  "hasWildcard contains ws scopes \<longleftrightarrow>
     (\<exists>scope \<in> set scopes. \<exists>w \<in> set ws. contains w scope)"
  by (induction scopes) (auto simp: wildcardsContain_iff)

lemma actionsLoop_filter:
  "actionsLoop deps actions permissions wildcards toCheck =
     toCheck @ map PString (filter (\<lambda>a. \<not> covered deps permissions wildcards a) actions)"
  by (induction actions arbitrary: toCheck) (auto simp: hasWildcard_iff covered_def)

lemma actionsToCheck_filter:
  "actionsToCheck deps actions permissions wildcards =
     map PString (filter (\<lambda>a. \<not> covered deps permissions wildcards a) actions)"
  by (simp add: actionsToCheck_def actionsLoop_filter)

lemma actionsToCheck_all_covered:
  "\<forall>a \<in> set actions. covered deps permissions wildcards a \<Longrightarrow>
   actionsToCheck deps actions permissions wildcards = []"
  by (simp add: actionsToCheck_filter)

text \<open>
  C4. \<open>actionsToCheck\<close> returns, in the order of the input, exactly the actions none of
  whose granted scopes is contained by one of the wildcards; an action of the input is
  dropped if and only if one of its granted scopes is contained by a wildcard.
\<close>

theorem actionsToCheck_uncovered:
  "actionsToCheck deps actions permissions wildcards =
     map PString (filter (\<lambda>a. \<not> (\<exists>scope \<in> set (scopesOf permissions a).
                                   \<exists>w \<in> set wildcards. Contains deps w scope)) actions)
   \<and> (\<forall>a \<in> set actions.
        PString a \<notin> set (actionsToCheck deps actions permissions wildcards) \<longleftrightarrow>
        (\<exists>scope \<in> set (scopesOf permissions a). \<exists>w \<in> set wildcards. Contains deps w scope))"
proof -
  have eq: "actionsToCheck deps actions permissions wildcards =
      map PString (filter (\<lambda>a. \<not> (\<exists>scope \<in> set (scopesOf permissions a).
                                   \<exists>w \<in> set wildcards. Contains deps w scope)) actions)"
    using actionsToCheck_filter [of deps actions permissions wildcards]
    by (simp add: covered_def)
  have "inj PString" by (simp add: inj_def)
  then have mem: "\<And>a xs. PString a \<in> set (map PString xs) \<longleftrightarrow> a \<in> set xs"
    by (auto simp: inj_def)
  show ?thesis
    unfolding eq using mem by auto
qed

theorem actionsToCheck_uncovered_witness:
  "actionsToCheck exampleDeps [''dashboards:read'', ''folders:read'', ''dashboards:write'']
     (Some examplePermissions) [[''*'', ''folders:*'', ''folders:uid:*'']] =
   [PString ''dashboards:read'', PString ''dashboards:write'']"
proof -
  have "actionsToCheck exampleDeps [''dashboards:read'', ''folders:read'', ''dashboards:write'']
     (Some examplePermissions) [[''*'', ''folders:*'', ''folders:uid:*'']] =
     map PString (filter (\<lambda>a. \<not> (\<exists>scope \<in> set (scopesOf (Some examplePermissions) a).
         \<exists>w \<in> set [[''*'', ''folders:*'', ''folders:uid:*'']]. Contains exampleDeps w scope))
       [''dashboards:read'', ''folders:read'', ''dashboards:write''])"
    using actionsToCheck_uncovered [of exampleDeps
        "[''dashboards:read'', ''folders:read'', ''dashboards:write'']"
        "Some examplePermissions" "[[''*'', ''folders:*'', ''folders:uid:*'']]"]
    by blast
  also have "\<dots> = [PString ''dashboards:read'', PString ''dashboards:write'']"
    by code_simp
  finally show ?thesis .
qed

subsection \<open>The preamble\<close>

lemma WithLoop_closed:
  "WithLoop rs (sb, ps) =
     (sb @ concat (map (\<lambda>r. '','' @ str r) rs), ps @ concat (map params rs))"
  by (induction rs arbitrary: sb ps) simp_all

lemma joinWith_Cons:
  "joinWith sep (x # xs) = x @ concat (map (\<lambda>y. sep @ y) xs)"
  by (induction sep xs arbitrary: x rule: joinWith.induct) simp_all

lemma With_closed:
  "With f =
     (if recQueries f = [] then ([], [])
      else (''WITH RECURSIVE '' @ joinWith '','' (map str (recQueries f)),
            concat (map params (recQueries f))))"
proof (cases "recQueries f")
  case Nil
  then show ?thesis by (simp add: With_def)
next
  case (Cons r rs)
  then show ?thesis
    by (simp add: With_def WithLoop_closed joinWith_Cons comp_def)
qed

lemma recQueries_addRecQry:
  "recQueries (addRecQry queryName whereUIDSelect whereParams f) =
     recQueries f @ [\<lparr>str = recQryText queryName whereUIDSelect, params = whereParams\<rparr>]"
  by (simp add: addRecQry_def)

text \<open>
  C6. \<open>With\<close> returns the empty text and no parameters when no recursive query definition
  was created; otherwise one text that starts with \<open>WITH RECURSIVE\<close> and holds all the
  definitions, joined by commas in the order of creation, and as parameters the
  concatenation of the definitions' parameters in the same order. \<open>addRecQry\<close> appends
  the new definition, so the order of the list is the order of creation.
\<close>

theorem With_preamble:
  "With f =
     (if recQueries f = [] then ([], [])
      else (''WITH RECURSIVE '' @ joinWith '','' (map str (recQueries f)),
            concat (map params (recQueries f))))
   \<and> recQueries (addRecQry queryName whereUIDSelect whereParams f) =
       recQueries f @ [\<lparr>str = recQryText queryName whereUIDSelect, params = whereParams\<rparr>]"
  using With_closed [of f] recQueries_addRecQry [of queryName whereUIDSelect whereParams f]
  by simp

theorem With_preamble_witness:
  "With \<lparr>user = None, dashboardActions = [], folderActions = [], features = None,
         where' = \<lparr>str = [], params = []\<rparr>,
         recQueries = [\<lparr>str = ''A AS (a ?)'', params = [PInt 1]\<rparr>,
                       \<lparr>str = ''B AS (b ? ?)'', params = [PInt 2, PInt 3]\<rparr>]\<rparr> =
     (''WITH RECURSIVE A AS (a ?),B AS (b ? ?)'', [PInt 1, PInt 2, PInt 3])
   \<and> With \<lparr>user = None, dashboardActions = [], folderActions = [], features = None,
         where' = \<lparr>str = [], params = []\<rparr>, recQueries = []\<rparr> = ([], [])"
  using
    With_preamble [of "\<lparr>user = None, dashboardActions = [], folderActions = [],
         features = None, where' = \<lparr>str = [], params = []\<rparr>,
         recQueries = [\<lparr>str = ''A AS (a ?)'', params = [PInt 1]\<rparr>,
                       \<lparr>str = ''B AS (b ? ?)'', params = [PInt 2, PInt 3]\<rparr>]\<rparr>"]
    With_preamble [of "\<lparr>user = None, dashboardActions = [], folderActions = [],
         features = None, where' = \<lparr>str = [], params = []\<rparr>, recQueries = []\<rparr>"]
  by simp

subsection \<open>The deny-all predicate\<close>

lemma buildClauses_no_permissions:
  assumes "user f = None \<or> (\<exists>u. user f = Some u \<and> orgPermissions u = None)"
  shows "buildClauses deps f = Inr (f\<lparr>where' := \<lparr>str = ''(1 = 0)'', params = []\<rparr>\<rparr>)"
  using assms by (auto simp: buildClauses_def)

lemma orgPermissions_None_iff:
  "orgPermissions u = None \<longleftrightarrow>
     (case Permissions u of
        None \<Rightarrow> True
      | Some pm \<Rightarrow> pm (OrgID u) = None \<or> pm (OrgID u) = Some None)"
  by (auto simp: orgPermissions_def split: option.splits)

text \<open>
  C3. When the permission index of the user has no entry for the user's organization (no
  key, or a nil entry), the constructor returns a filter whose \<open>Where\<close> is the text
  \<open>(1 = 0)\<close> with no parameters, for every query type, permission level and feature
  toggles.
\<close>

theorem missing_org_entry_denies_all:
  assumes "Permissions u = Some pm"
    and "pm (OrgID u) = None \<or> pm (OrgID u) = Some None"
  shows "\<exists>f. NewAccessControlDashboardPermissionFilter deps (Some u) permissionLevel
                queryType feats = Inr f
             \<and> Where f = (''(1 = 0)'', [])"
proof -
  have "orgPermissions u = None"
    using assms by (simp add: orgPermissions_None_iff)
  then show ?thesis
    by (simp add: NewAccessControlDashboardPermissionFilter_def Let_def
        buildClauses_no_permissions Where_def split: prod.splits)
qed

theorem missing_org_entry_denies_all_witness:
  "\<exists>f. NewAccessControlDashboardPermissionFilter exampleDeps
          (Some \<lparr>UserID = 7, OrgID = 2, Teams = [],
                 Permissions = Some [1 \<mapsto> Some examplePermissions]\<rparr>)
          2 ''dash-db'' None = Inr f
       \<and> Where f = (''(1 = 0)'', [])"
  using missing_org_entry_denies_all [of
      "\<lparr>UserID = 7, OrgID = 2, Teams = [], Permissions = Some [1 \<mapsto> Some examplePermissions]\<rparr>"
      "[1 \<mapsto> Some examplePermissions]" exampleDeps 2 "''dash-db''" None]
  by simp

text \<open>
  C9. When the user pointer is nil, or the \<open>Permissions\<close> map of the user is nil,
  \<open>buildClauses\<close> returns (it does not panic, whatever the other fields, the feature
  toggles included) and \<open>Where\<close> of the result is the text \<open>(1 = 0)\<close> with no
  parameters, as for a missing organization entry.
\<close>

theorem nil_user_denies_all:
  assumes "user f = None \<or> (\<exists>u. user f = Some u \<and> Permissions u = None)"
  shows "\<exists>f'. buildClauses deps f = Inr f' \<and> Where f' = (''(1 = 0)'', [])"
proof -
  have "user f = None \<or> (\<exists>u. user f = Some u \<and> orgPermissions u = None)"
    using assms by (auto simp: orgPermissions_None_iff)
  then show ?thesis
    by (simp add: buildClauses_no_permissions Where_def)
qed

theorem nil_user_denies_all_witness:
  "(\<exists>f'. buildClauses exampleDeps
            \<lparr>user = None, dashboardActions = [''dashboards:read''],
             folderActions = [''folders:read''], features = None,
             where' = \<lparr>str = [], params = []\<rparr>, recQueries = []\<rparr> = Inr f'
          \<and> Where f' = (''(1 = 0)'', []))
   \<and> (\<exists>f'. buildClauses exampleDeps
            \<lparr>user = Some \<lparr>UserID = 7, OrgID = 1, Teams = [], Permissions = None\<rparr>,
             dashboardActions = [''dashboards:read''],
             folderActions = [''folders:read''], features = None,
             where' = \<lparr>str = [], params = []\<rparr>, recQueries = []\<rparr> = Inr f'
          \<and> Where f' = (''(1 = 0)'', []))"
  using
    nil_user_denies_all [of "\<lparr>user = None, dashboardActions = [''dashboards:read''],
             folderActions = [''folders:read''], features = None,
             where' = \<lparr>str = [], params = []\<rparr>, recQueries = []\<rparr>" exampleDeps]
    nil_user_denies_all [of
            "\<lparr>user = Some \<lparr>UserID = 7, OrgID = 1, Teams = [], Permissions = None\<rparr>,
             dashboardActions = [''dashboards:read''],
             folderActions = [''folders:read''], features = None,
             where' = \<lparr>str = [], params = []\<rparr>, recQueries = []\<rparr>" exampleDeps]
  by simp

subsection \<open>The condition on the actions\<close>

lemma actionFilter_single:
  "actionFilter [a] = Inr ('' AND action = ?'', [a])"
  by (simp add: actionFilter_def)

lemma actionFilter_many:
  assumes "2 \<le> length toCheck"
  shows "actionFilter toCheck =
     Inr ('' AND action IN (?'' @ concat (replicate (length toCheck - 1) '', ?'') @
          '') GROUP BY role_id, scope HAVING COUNT(action) = ?'',
          toCheck @ [PInt (int (length toCheck))])"
proof -
  have "nat (int (length toCheck) - 1) = length toCheck - 1" by simp
  moreover from assms have "toCheck \<noteq> []" and "length toCheck \<noteq> 1" by auto
  ultimately show ?thesis
    by (simp add: actionFilter_def pbind_def Repeat_def)
qed

lemma actionFilter_returns:
  assumes "toCheck \<noteq> []"
  shows "\<exists>t A. actionFilter toCheck = Inr (t, A)"
proof (cases "length toCheck = 1")
  case True
  then show ?thesis by (simp add: actionFilter_def)
next
  case False
  with assms have "2 \<le> length toCheck"
    by (cases toCheck) (auto simp: Suc_le_eq)
  then show ?thesis by (simp add: actionFilter_many)
qed

lemma actionFilter_count:
  assumes "actionFilter toCheck = Inr (t, A)"
  shows "placeholders t = (if length toCheck = 1 then 1 else length toCheck + 1)
       \<and> A = (if length toCheck = 1 then [toCheck ! 0]
              else toCheck @ [PInt (int (length toCheck))])"
proof (cases "length toCheck = 1")
  case True
  with assms show ?thesis by (auto simp: actionFilter_def)
next
  case False
  with assms have ge: "0 \<le> int (length toCheck) - 1"
    by (auto simp: actionFilter_def pbind_def Repeat_def split: if_splits)
  then have "toCheck \<noteq> []" by auto
  with False have "2 \<le> length toCheck"
    by (cases toCheck) (auto simp: Suc_le_eq)
  with assms have "t = '' AND action IN (?'' @ concat (replicate (length toCheck - 1) '', ?'') @
          '') GROUP BY role_id, scope HAVING COUNT(action) = ?''"
    and "A = toCheck @ [PInt (int (length toCheck))]"
    by (simp_all add: actionFilter_many)
  with False \<open>2 \<le> length toCheck\<close> show ?thesis
    by (simp add: placeholders_repeat)
qed

lemma actionFilter_balanced:
  assumes "actionFilter toCheck = Inr (t, A)"
  shows "placeholders t = length A"
  using actionFilter_count [OF assms] by (auto split: if_splits)

subsection \<open>The two branches\<close>

lemma addRecQry_fields [simp]:
  "user (addRecQry n s ps f) = user f"
  "dashboardActions (addRecQry n s ps f) = dashboardActions f"
  "folderActions (addRecQry n s ps f) = folderActions f"
  "features (addRecQry n s ps f) = features f"
  "where' (addRecQry n s ps f) = where' f"
  by (simp_all add: addRecQry_def)

lemma dashboardBranch_none:
  "dashboardActions f = [] \<Longrightarrow>
   dashboardBranch deps permissions dw fw rolesFilter roleParams (f, l) = Inr (f, l)"
  by (simp add: dashboardBranch_def)

lemma dashboardBranch_covered:
  assumes "dashboardActions f \<noteq> []"
    and "actionsToCheck deps (dashboardActions f) permissions [dw, fw] = []"
  shows "dashboardBranch deps permissions dw fw rolesFilter roleParams (f, l) =
           Inr (f, l\<lparr>builder := builder l @ ''NOT dashboard.is_folder''\<rparr>)"
  using assms by (simp add: dashboardBranch_def)

lemma dashboardBranch_check:
  assumes "dashboardActions f \<noteq> []"
    and "actionsToCheck deps (dashboardActions f) permissions [dw, fw] = toCheck"
    and "toCheck \<noteq> []"
    and "actionFilter toCheck = Inr (t, A)"
    and "features f = Some isEnabled"
  shows "dashboardBranch deps permissions dw fw rolesFilter roleParams (f, l) =
     Inr (if isEnabled (FlagNestedFolders deps) then
            (addRecQry (''RecQry'' @ itoa (length (recQueries f)))
               (permSelector l @
                ''(SELECT substr(scope, 13) FROM permission WHERE scope LIKE 'folders:uid:%' '' @
                rolesFilter @ t @ '')'')
               (permSelectorArgs l @ roleParams @ A) f,
             l\<lparr>builder := builder l @
                  ''(dashboard.uid IN (SELECT substr(scope, 16) FROM permission WHERE scope LIKE 'dashboards:uid:%'' @ [CHR 0x27] @
                  rolesFilter @ t @ '') AND NOT dashboard.is_folder)'' @ '' OR '' @
                  ''(dashboard.folder_id IN (SELECT id FROM dashboard as d '' @
                  ''WHERE d.uid IN (SELECT uid FROM '' @
                  (''RecQry'' @ itoa (length (recQueries f))) @ '')'' @
                  '') AND NOT dashboard.is_folder)'',
               args := args l @ roleParams @ A,
               permSelector := permSelector l @
                  ''(SELECT substr(scope, 13) FROM permission WHERE scope LIKE 'folders:uid:%' '' @
                  rolesFilter @ t @ '')'',
               permSelectorArgs := permSelectorArgs l @ roleParams @ A\<rparr>)
          else
            (f,
             l\<lparr>builder := builder l @
                  ''(dashboard.uid IN (SELECT substr(scope, 16) FROM permission WHERE scope LIKE 'dashboards:uid:%'' @ [CHR 0x27] @
                  rolesFilter @ t @ '') AND NOT dashboard.is_folder)'' @ '' OR '' @
                  ''(dashboard.folder_id IN (SELECT id FROM dashboard as d '' @
                  ''WHERE d.uid IN '' @
                  (permSelector l @
                   ''(SELECT substr(scope, 13) FROM permission WHERE scope LIKE 'folders:uid:%' '' @
                   rolesFilter @ t @ '')'') @
                  '') AND NOT dashboard.is_folder)'',
               args := args l @ roleParams @ A @ permSelectorArgs l @ roleParams @ A,
               permSelector := permSelector l @
                  ''(SELECT substr(scope, 13) FROM permission WHERE scope LIKE 'folders:uid:%' '' @
                  rolesFilter @ t @ '')'',
               permSelectorArgs := permSelectorArgs l @ roleParams @ A\<rparr>))"
  using assms by (simp add: dashboardBranch_def Let_def pbind_def)

lemma folderBranch_none:
  "folderActions f = [] \<Longrightarrow>
   folderBranch deps permissions fw rolesFilter roleParams (f, l) = Inr (f, l)"
  by (simp add: folderBranch_def)

lemma folderBranch_covered:
  assumes "folderActions f \<noteq> []"
    and "actionsToCheck deps (folderActions f) permissions [fw] = []"
  shows "folderBranch deps permissions fw rolesFilter roleParams (f, l) =
           Inr (f, l\<lparr>builder := builder l @
                  (if dashboardActions f \<noteq> [] then '' OR '' else []) @
                  ''dashboard.is_folder''\<rparr>)"
  using assms by (simp add: folderBranch_def)

lemma folderBranch_check:
  assumes "folderActions f \<noteq> []"
    and "actionsToCheck deps (folderActions f) permissions [fw] = toCheck"
    and "toCheck \<noteq> []"
    and "actionFilter toCheck = Inr (t, A)"
    and "features f = Some isEnabled"
  shows "folderBranch deps permissions fw rolesFilter roleParams (f, l) =
     Inr (if isEnabled (FlagNestedFolders deps) then
            (addRecQry (''RecQry'' @ itoa (length (recQueries f)))
               (permSelector l @
                ''(SELECT substr(scope, 13) FROM permission WHERE scope LIKE 'folders:uid:%'' @ [CHR 0x27] @
                rolesFilter @ t @ '')'')
               (permSelectorArgs l @ roleParams @ A) f,
             l\<lparr>builder := builder l @
                  (if dashboardActions f \<noteq> [] then '' OR '' else []) @
                  ''(dashboard.uid IN '' @
                  ''(SELECT uid FROM '' @ (''RecQry'' @ itoa (length (recQueries f))) @ '')'' @
                  '' AND dashboard.is_folder)'',
               permSelector := permSelector l @
                  ''(SELECT substr(scope, 13) FROM permission WHERE scope LIKE 'folders:uid:%'' @ [CHR 0x27] @
                  rolesFilter @ t @ '')'',
               permSelectorArgs := permSelectorArgs l @ roleParams @ A\<rparr>)
          else
            (f,
             l\<lparr>builder := builder l @
                  (if dashboardActions f \<noteq> [] then '' OR '' else []) @
                  ''(dashboard.uid IN '' @
                  (permSelector l @
                   ''(SELECT substr(scope, 13) FROM permission WHERE scope LIKE 'folders:uid:%'' @ [CHR 0x27] @
                   rolesFilter @ t @ '')'') @
                  '' AND dashboard.is_folder)'',
               args := args l @ permSelectorArgs l @ roleParams @ A,
               permSelector := permSelector l @
                  ''(SELECT substr(scope, 13) FROM permission WHERE scope LIKE 'folders:uid:%'' @ [CHR 0x27] @
                  rolesFilter @ t @ '')'',
               permSelectorArgs := permSelectorArgs l @ roleParams @ A\<rparr>))"
  using assms by (simp add: folderBranch_def Let_def pbind_def)

lemma dashboardBranch_returns:
  assumes "features f \<noteq> None"
  shows "\<exists>f' l'. dashboardBranch deps permissions dw fw rolesFilter roleParams (f, l) =
           Inr (f', l')"
proof (cases "dashboardActions f = []")
  case True
  then show ?thesis by (simp add: dashboardBranch_none)
next
  case actions: False
  show ?thesis
  proof (cases "actionsToCheck deps (dashboardActions f) permissions [dw, fw] = []")
    case True
    with actions show ?thesis by (simp add: dashboardBranch_covered)
  next
    case False
    then obtain t A where
      "actionFilter (actionsToCheck deps (dashboardActions f) permissions [dw, fw]) = Inr (t, A)"
      using actionFilter_returns by blast
    moreover from assms obtain isEnabled where "features f = Some isEnabled" by auto
    ultimately show ?thesis
      using dashboardBranch_check [OF actions refl False, of t A isEnabled rolesFilter roleParams l]
      by (cases "isEnabled (FlagNestedFolders deps)") simp_all
  qed
qed

lemma folderBranch_returns:
  assumes "features f \<noteq> None"
  shows "\<exists>f' l'. folderBranch deps permissions fw rolesFilter roleParams (f, l) = Inr (f', l')"
proof (cases "folderActions f = []")
  case True
  then show ?thesis by (simp add: folderBranch_none)
next
  case actions: False
  show ?thesis
  proof (cases "actionsToCheck deps (folderActions f) permissions [fw] = []")
    case True
    with actions show ?thesis by (simp add: folderBranch_covered)
  next
    case False
    then obtain t A where
      "actionFilter (actionsToCheck deps (folderActions f) permissions [fw]) = Inr (t, A)"
      using actionFilter_returns by blast
    moreover from assms obtain isEnabled where "features f = Some isEnabled" by auto
    ultimately show ?thesis
      using folderBranch_check [OF actions refl False, of t A isEnabled rolesFilter roleParams l]
      by (cases "isEnabled (FlagNestedFolders deps)") simp_all
  qed
qed

text \<open>What a branch that returns has done, case by case.\<close>

lemma dashboardBranch_cases:
  assumes "dashboardBranch deps permissions dw fw rolesFilter roleParams (f, l) = Inr (f', l')"
  obtains
    (none) "dashboardActions f = []" "f' = f" "l' = l"
  | (covered) "dashboardActions f \<noteq> []"
      "actionsToCheck deps (dashboardActions f) permissions [dw, fw] = []"
      "f' = f" "l' = l\<lparr>builder := builder l @ ''NOT dashboard.is_folder''\<rparr>"
  | (check) t A isEnabled where "dashboardActions f \<noteq> []"
      "actionsToCheck deps (dashboardActions f) permissions [dw, fw] \<noteq> []"
      "actionFilter (actionsToCheck deps (dashboardActions f) permissions [dw, fw]) = Inr (t, A)"
      "features f = Some isEnabled"
proof (cases "dashboardActions f = []")
  case True
  with assms have "f' = f" and "l' = l" by (simp_all add: dashboardBranch_none)
  with True show ?thesis by (rule none)
next
  case actions: False
  show ?thesis
  proof (cases "actionsToCheck deps (dashboardActions f) permissions [dw, fw] = []")
    case True
    with assms actions have "f' = f"
      and "l' = l\<lparr>builder := builder l @ ''NOT dashboard.is_folder''\<rparr>"
      by (simp_all add: dashboardBranch_covered)
    with actions True show ?thesis by (rule covered)
  next
    case False
    then obtain t A where af:
      "actionFilter (actionsToCheck deps (dashboardActions f) permissions [dw, fw]) = Inr (t, A)"
      using actionFilter_returns by blast
    have "features f \<noteq> None"
      using assms actions False af
      by (auto simp: dashboardBranch_def Let_def pbind_def split: option.splits)
    then obtain isEnabled where "features f = Some isEnabled" by auto
    with actions False af show ?thesis by (rule check)
  qed
qed

lemma folderBranch_cases:
  assumes "folderBranch deps permissions fw rolesFilter roleParams (f, l) = Inr (f', l')"
  obtains
    (none) "folderActions f = []" "f' = f" "l' = l"
  | (covered) "folderActions f \<noteq> []"
      "actionsToCheck deps (folderActions f) permissions [fw] = []"
      "f' = f"
      "l' = l\<lparr>builder := builder l @ (if dashboardActions f \<noteq> [] then '' OR '' else []) @
                ''dashboard.is_folder''\<rparr>"
  | (check) t A isEnabled where "folderActions f \<noteq> []"
      "actionsToCheck deps (folderActions f) permissions [fw] \<noteq> []"
      "actionFilter (actionsToCheck deps (folderActions f) permissions [fw]) = Inr (t, A)"
      "features f = Some isEnabled"
proof (cases "folderActions f = []")
  case True
  with assms have "f' = f" and "l' = l" by (simp_all add: folderBranch_none)
  with True show ?thesis by (rule none)
next
  case actions: False
  show ?thesis
  proof (cases "actionsToCheck deps (folderActions f) permissions [fw] = []")
    case True
    from assms [symmetric] folderBranch_covered [OF actions True, of rolesFilter roleParams l]
    have "Inr (f', l') = (Inr (f, l\<lparr>builder := builder l @
                (if dashboardActions f \<noteq> [] then '' OR '' else []) @
                ''dashboard.is_folder''\<rparr>)
              :: panic + accessControlDashboardPermissionFilter \<times> locals)"
      by (rule trans)
    then have "f' = f"
      and "l' = l\<lparr>builder := builder l @ (if dashboardActions f \<noteq> [] then '' OR '' else []) @
                ''dashboard.is_folder''\<rparr>"
      by blast+
    with actions True show ?thesis by (rule covered)
  next
    case False
    then obtain t A where af:
      "actionFilter (actionsToCheck deps (folderActions f) permissions [fw]) = Inr (t, A)"
      using actionFilter_returns by blast
    have "features f \<noteq> None"
      using assms actions False af
      by (auto simp: folderBranch_def Let_def pbind_def split: option.splits)
    then obtain isEnabled where "features f = Some isEnabled" by auto
    with actions False af show ?thesis by (rule check)
  qed
qed

lemma dashboardBranch_result:
  assumes "dashboardBranch deps permissions dw fw rolesFilter roleParams (f, l) = Inr (f', l')"
    and "dashboardActions f \<noteq> []"
    and "actionsToCheck deps (dashboardActions f) permissions [dw, fw] = toCheck"
    and "toCheck \<noteq> []"
    and "actionFilter toCheck = Inr (t, A)"
    and "features f = Some isEnabled"
  shows "f' = (if isEnabled (FlagNestedFolders deps) then
                 addRecQry (''RecQry'' @ itoa (length (recQueries f)))
                   (permSelector l @
                    ''(SELECT substr(scope, 13) FROM permission WHERE scope LIKE 'folders:uid:%' '' @
                    rolesFilter @ t @ '')'')
                   (permSelectorArgs l @ roleParams @ A) f
               else f)"
    and "args l' = (if isEnabled (FlagNestedFolders deps) then args l @ roleParams @ A
                    else args l @ roleParams @ A @ permSelectorArgs l @ roleParams @ A)"
    and "placeholders (builder l') =
           (if isEnabled (FlagNestedFolders deps)
            then placeholders (builder l) + placeholders rolesFilter + placeholders t
            else placeholders (builder l) + placeholders rolesFilter + placeholders t +
                 placeholders (permSelector l) + placeholders rolesFilter + placeholders t)"
proof -
  note res = dashboardBranch_check [OF assms(2-6), of rolesFilter roleParams l,
      unfolded assms(1)]
  show "f' = (if isEnabled (FlagNestedFolders deps) then
                 addRecQry (''RecQry'' @ itoa (length (recQueries f)))
                   (permSelector l @
                    ''(SELECT substr(scope, 13) FROM permission WHERE scope LIKE 'folders:uid:%' '' @
                    rolesFilter @ t @ '')'')
                   (permSelectorArgs l @ roleParams @ A) f
               else f)"
    using res by (cases "isEnabled (FlagNestedFolders deps)") simp_all
  show "args l' = (if isEnabled (FlagNestedFolders deps) then args l @ roleParams @ A
                    else args l @ roleParams @ A @ permSelectorArgs l @ roleParams @ A)"
    using res by (cases "isEnabled (FlagNestedFolders deps)") auto
  show "placeholders (builder l') =
           (if isEnabled (FlagNestedFolders deps)
            then placeholders (builder l) + placeholders rolesFilter + placeholders t
            else placeholders (builder l) + placeholders rolesFilter + placeholders t +
                 placeholders (permSelector l) + placeholders rolesFilter + placeholders t)"
    using res by (cases "isEnabled (FlagNestedFolders deps)") auto
qed

lemma folderBranch_result:
  assumes "folderBranch deps permissions fw rolesFilter roleParams (f, l) = Inr (f', l')"
    and "folderActions f \<noteq> []"
    and "actionsToCheck deps (folderActions f) permissions [fw] = toCheck"
    and "toCheck \<noteq> []"
    and "actionFilter toCheck = Inr (t, A)"
    and "features f = Some isEnabled"
  shows "f' = (if isEnabled (FlagNestedFolders deps) then
                 addRecQry (''RecQry'' @ itoa (length (recQueries f)))
                   (permSelector l @
                    ''(SELECT substr(scope, 13) FROM permission WHERE scope LIKE 'folders:uid:%'' @ [CHR 0x27] @
                    rolesFilter @ t @ '')'')
                   (permSelectorArgs l @ roleParams @ A) f
               else f)"
    and "args l' = (if isEnabled (FlagNestedFolders deps) then args l
                    else args l @ permSelectorArgs l @ roleParams @ A)"
    and "placeholders (builder l') =
           (if isEnabled (FlagNestedFolders deps) then placeholders (builder l)
            else placeholders (builder l) + placeholders (permSelector l) +
                 placeholders rolesFilter + placeholders t)"
proof -
  note res = folderBranch_check [OF assms(2-6), of rolesFilter roleParams l,
      unfolded assms(1)]
  show "f' = (if isEnabled (FlagNestedFolders deps) then
                 addRecQry (''RecQry'' @ itoa (length (recQueries f)))
                   (permSelector l @
                    ''(SELECT substr(scope, 13) FROM permission WHERE scope LIKE 'folders:uid:%'' @ [CHR 0x27] @
                    rolesFilter @ t @ '')'')
                   (permSelectorArgs l @ roleParams @ A) f
               else f)"
    using res by (cases "isEnabled (FlagNestedFolders deps)") simp_all
  show "args l' = (if isEnabled (FlagNestedFolders deps) then args l
                    else args l @ permSelectorArgs l @ roleParams @ A)"
    using res by (cases "isEnabled (FlagNestedFolders deps)") auto
  show "placeholders (builder l') =
           (if isEnabled (FlagNestedFolders deps) then placeholders (builder l)
            else placeholders (builder l) + placeholders (permSelector l) +
                 placeholders rolesFilter + placeholders t)"
    using res by (cases "isEnabled (FlagNestedFolders deps)") auto
qed

lemma dashboardBranch_fields:
  assumes "dashboardBranch deps permissions dw fw rolesFilter roleParams (f, l) = Inr (f', l')"
  shows "user f' = user f \<and> dashboardActions f' = dashboardActions f \<and>
         folderActions f' = folderActions f \<and> features f' = features f \<and>
         where' f' = where' f"
  using assms
proof (cases rule: dashboardBranch_cases)
  case (check t A isEnabled)
  from dashboardBranch_result(1) [OF assms check(1) refl check(2-4)]
  show ?thesis by (simp split: if_splits)
qed simp_all

lemma folderBranch_fields:
  assumes "folderBranch deps permissions fw rolesFilter roleParams (f, l) = Inr (f', l')"
  shows "user f' = user f \<and> dashboardActions f' = dashboardActions f \<and>
         folderActions f' = folderActions f \<and> features f' = features f \<and>
         where' f' = where' f"
  using assms
proof (cases rule: folderBranch_cases)
  case (check t A isEnabled)
  from folderBranch_result(1) [OF assms check(1) refl check(2-4)]
  show ?thesis by (simp split: if_splits)
qed simp_all

text \<open>A branch keeps the texts and their parameters in step.\<close>

lemma dashboardBranch_balanced:
  assumes "dashboardBranch deps permissions dw fw rolesFilter roleParams (f, l) = Inr (f', l')"
    and "placeholders rolesFilter = length roleParams"
    and "placeholders (builder l) = length (args l)"
    and "placeholders (permSelector l) = length (permSelectorArgs l)"
    and "\<forall>c \<in> set (recQueries f). placeholders (str c) = length (params c)"
  shows "placeholders (builder l') = length (args l') \<and>
         (\<forall>c \<in> set (recQueries f'). placeholders (str c) = length (params c))"
  using assms(1)
proof (cases rule: dashboardBranch_cases)
  case none
  with assms show ?thesis by simp
next
  case covered
  with assms show ?thesis by simp
next
  case (check t A isEnabled)
  note r = dashboardBranch_result [OF assms(1) check(1) refl check(2-4)]
  have "placeholders t = length A" using check(3) by (rule actionFilter_balanced)
  with r assms(2-5) show ?thesis
    by (cases "isEnabled (FlagNestedFolders deps)") (simp_all add: recQueries_addRecQry)
qed

lemma folderBranch_balanced:
  assumes "folderBranch deps permissions fw rolesFilter roleParams (f, l) = Inr (f', l')"
    and "placeholders rolesFilter = length roleParams"
    and "placeholders (builder l) = length (args l)"
    and "placeholders (permSelector l) = length (permSelectorArgs l)"
    and "\<forall>c \<in> set (recQueries f). placeholders (str c) = length (params c)"
  shows "placeholders (builder l') = length (args l') \<and>
         (\<forall>c \<in> set (recQueries f'). placeholders (str c) = length (params c))"
  using assms(1)
proof (cases rule: folderBranch_cases)
  case none
  with assms show ?thesis by simp
next
  case covered
  with assms show ?thesis by simp
next
  case (check t A isEnabled)
  note r = folderBranch_result [OF assms(1) check(1) refl check(2-4)]
  have "placeholders t = length A" using check(3) by (rule actionFilter_balanced)
  with r assms(2-5) show ?thesis
    by (cases "isEnabled (FlagNestedFolders deps)") (simp_all add: recQueries_addRecQry)
qed

subsection \<open>The compilation as a whole\<close>

lemma pbind_Inr_iff: "pbind m k = Inr r \<longleftrightarrow> (\<exists>x. m = Inr x \<and> k x = Inr r)"
  by (cases m) (simp_all add: pbind_def)

lemma recycle_simps [simp]:
  "builder (recycle l) = builder l"
  "args (recycle l) = args l"
  "permSelector (recycle l) = []"
  "permSelectorArgs (recycle l) = []"
  by (simp_all add: recycle_def)

text \<open>A run of \<open>buildClauses\<close> that returns is either the deny-all case or the two
  branches, one after the other.\<close>

lemma buildClauses_cases:
  assumes "buildClauses deps f = Inr f'"
  obtains
    (deny) "user f = None \<or> (\<exists>u. user f = Some u \<and> orgPermissions u = None)"
      "f' = f\<lparr>where' := \<lparr>str = ''(1 = 0)'', params = []\<rparr>\<rparr>"
  | (run) u flt roleParams f1 l1 f2 l2 where
      "user f = Some u" "orgPermissions u \<noteq> None"
      "UserRolesFilter deps (OrgID u) (UserID u) (Teams u) (GetOrgRoles deps u) =
         (flt, roleParams)"
      "dashboardBranch deps (orgPermissions u)
         (WildcardsFromPrefix deps (ScopeDashboardsPrefix deps))
         (WildcardsFromPrefix deps (ScopeFoldersPrefix deps))
         ('' AND role_id IN(SELECT id FROM role '' @ flt @ '') '') roleParams
         (f, \<lparr>builder = ''('', args = [], permSelector = [], permSelectorArgs = []\<rparr>) =
       Inr (f1, l1)"
      "folderBranch deps (orgPermissions u)
         (WildcardsFromPrefix deps (ScopeFoldersPrefix deps))
         ('' AND role_id IN(SELECT id FROM role '' @ flt @ '') '') roleParams
         (f1, recycle l1) = Inr (f2, l2)"
      "f' = f2\<lparr>where' := \<lparr>str = builder l2 @ '')'', params = args l2\<rparr>\<rparr>"
proof (cases "user f = None \<or> (\<exists>u. user f = Some u \<and> orgPermissions u = None)")
  case True
  then have "buildClauses deps f = Inr (f\<lparr>where' := \<lparr>str = ''(1 = 0)'', params = []\<rparr>\<rparr>)"
    by (rule buildClauses_no_permissions)
  with assms have "f' = f\<lparr>where' := \<lparr>str = ''(1 = 0)'', params = []\<rparr>\<rparr>" by simp
  with True show ?thesis by (rule deny)
next
  case False
  then obtain u where u: "user f = Some u" "orgPermissions u \<noteq> None" by auto
  then have p: "Permissions u \<noteq> None"
    by (auto simp: orgPermissions_def split: option.splits)
  obtain flt roleParams where
    rf: "UserRolesFilter deps (OrgID u) (UserID u) (Teams u) (GetOrgRoles deps u) =
           (flt, roleParams)"
    by (cases "UserRolesFilter deps (OrgID u) (UserID u) (Teams u) (GetOrgRoles deps u)")
  from assms u p rf obtain f1 l1 f2 l2 where
    "dashboardBranch deps (orgPermissions u)
         (WildcardsFromPrefix deps (ScopeDashboardsPrefix deps))
         (WildcardsFromPrefix deps (ScopeFoldersPrefix deps))
         ('' AND role_id IN(SELECT id FROM role '' @ flt @ '') '') roleParams
         (f, \<lparr>builder = ''('', args = [], permSelector = [], permSelectorArgs = []\<rparr>) =
       Inr (f1, l1)"
    and "folderBranch deps (orgPermissions u)
         (WildcardsFromPrefix deps (ScopeFoldersPrefix deps))
         ('' AND role_id IN(SELECT id FROM role '' @ flt @ '') '') roleParams
         (f1, recycle l1) = Inr (f2, l2)"
    and "f' = f2\<lparr>where' := \<lparr>str = builder l2 @ '')'', params = args l2\<rparr>\<rparr>"
    by (auto simp: buildClauses_def Let_def pbind_Inr_iff)
  with u rf show ?thesis by (rule run)
qed

lemma buildClauses_returns:
  assumes "features f \<noteq> None"
  shows "\<exists>f'. buildClauses deps f = Inr f'"
proof (cases "user f = None \<or> (\<exists>u. user f = Some u \<and> orgPermissions u = None)")
  case True
  then show ?thesis by (simp add: buildClauses_no_permissions)
next
  case False
  then obtain u where u: "user f = Some u" "orgPermissions u \<noteq> None" by auto
  then have p: "Permissions u \<noteq> None"
    by (auto simp: orgPermissions_def split: option.splits)
  obtain flt roleParams where
    rf: "UserRolesFilter deps (OrgID u) (UserID u) (Teams u) (GetOrgRoles deps u) =
           (flt, roleParams)"
    by (cases "UserRolesFilter deps (OrgID u) (UserID u) (Teams u) (GetOrgRoles deps u)")
  obtain f1 l1 where
    d: "dashboardBranch deps (orgPermissions u)
         (WildcardsFromPrefix deps (ScopeDashboardsPrefix deps))
         (WildcardsFromPrefix deps (ScopeFoldersPrefix deps))
         ('' AND role_id IN(SELECT id FROM role '' @ flt @ '') '') roleParams
         (f, \<lparr>builder = ''('', args = [], permSelector = [], permSelectorArgs = []\<rparr>) =
       Inr (f1, l1)"
    using dashboardBranch_returns [OF assms, of deps "orgPermissions u"
        "WildcardsFromPrefix deps (ScopeDashboardsPrefix deps)"
        "WildcardsFromPrefix deps (ScopeFoldersPrefix deps)"
        "'' AND role_id IN(SELECT id FROM role '' @ flt @ '') ''" roleParams
        "\<lparr>builder = ''('', args = [], permSelector = [], permSelectorArgs = []\<rparr>"]
    by auto
  then have "features f1 \<noteq> None"
    using dashboardBranch_fields [OF d] assms by simp
  then obtain f2 l2 where
    "folderBranch deps (orgPermissions u)
         (WildcardsFromPrefix deps (ScopeFoldersPrefix deps))
         ('' AND role_id IN(SELECT id FROM role '' @ flt @ '') '') roleParams
         (f1, recycle l1) = Inr (f2, l2)"
    using folderBranch_returns [of f1 deps "orgPermissions u"
        "WildcardsFromPrefix deps (ScopeFoldersPrefix deps)"
        "'' AND role_id IN(SELECT id FROM role '' @ flt @ '') ''" roleParams "recycle l1"]
    by auto
  with u p rf d show ?thesis
    by (simp add: buildClauses_def Let_def pbind_def)
qed

lemma buildClauses_fields:
  assumes "buildClauses deps f = Inr f'"
  shows "user f' = user f \<and> dashboardActions f' = dashboardActions f \<and>
         folderActions f' = folderActions f \<and> features f' = features f"
  using assms
proof (cases rule: buildClauses_cases)
  case deny
  then show ?thesis by simp
next
  case (run u flt roleParams f1 l1 f2 l2)
  from dashboardBranch_fields [OF run(4)] folderBranch_fields [OF run(5)] run(6)
  show ?thesis by simp
qed

lemma buildClauses_balanced:
  assumes "buildClauses deps f = Inr f'"
    and "\<forall>u. user f = Some u \<longrightarrow>
           placeholders (fst (UserRolesFilter deps (OrgID u) (UserID u) (Teams u)
                                (GetOrgRoles deps u))) =
           length (snd (UserRolesFilter deps (OrgID u) (UserID u) (Teams u)
                          (GetOrgRoles deps u)))"
    and "\<forall>c \<in> set (recQueries f). placeholders (str c) = length (params c)"
  shows "placeholders (str (where' f')) = length (params (where' f')) \<and>
         (\<forall>c \<in> set (recQueries f'). placeholders (str c) = length (params c))"
  using assms(1)
proof (cases rule: buildClauses_cases)
  case deny
  with assms(3) show ?thesis by simp
next
  case (run u flt roleParams f1 l1 f2 l2)
  from assms(2) run(1,3) have flt: "placeholders flt = length roleParams" by simp
  then have rf: "placeholders ('' AND role_id IN(SELECT id FROM role '' @ flt @ '') '') =
      length roleParams" by simp
  from dashboardBranch_balanced [OF run(4) rf _ _ assms(3)]
  have d: "placeholders (builder l1) = length (args l1)"
    "\<forall>c \<in> set (recQueries f1). placeholders (str c) = length (params c)"
    by simp_all
  from folderBranch_balanced [OF run(5) rf _ _ d(2)] d(1)
  have "placeholders (builder l2) = length (args l2)"
    "\<forall>c \<in> set (recQueries f2). placeholders (str c) = length (params c)"
    by simp_all
  with run(6) show ?thesis by simp
qed

lemma placeholders_joinWith_comma:
  "placeholders (joinWith '','' xs) = sum_list (map placeholders xs)"
  by (induction "'',''" xs rule: joinWith.induct) simp_all

lemma With_balanced:
  assumes "\<forall>c \<in> set (recQueries f). placeholders (str c) = length (params c)"
  shows "placeholders (fst (With f)) = length (snd (With f))"
proof -
  have "sum_list (map placeholders (map str rs)) = length (concat (map params rs))"
    if "\<forall>c \<in> set rs. placeholders (str c) = length (params c)" for rs :: "clause list"
    using that by (induction rs) simp_all
  with assms show ?thesis
    by (simp add: With_closed placeholders_joinWith_comma)
qed

lemma NewAccessControlDashboardPermissionFilter_buildClauses:
  "\<exists>dashboardActs folderActs.
     NewAccessControlDashboardPermissionFilter deps usr permissionLevel queryType feats =
       buildClauses deps
         \<lparr>user = usr, dashboardActions = dashboardActs, folderActions = folderActs,
          features = feats, where' = \<lparr>str = [], params = []\<rparr>, recQueries = []\<rparr>"
  unfolding NewAccessControlDashboardPermissionFilter_def Let_def split_beta
  by (intro exI) (rule refl)

lemma NewAccessControlDashboardPermissionFilter_returns:
  assumes "feats \<noteq> None"
  shows "\<exists>f. NewAccessControlDashboardPermissionFilter deps usr permissionLevel queryType
               feats = Inr f"
proof -
  obtain dashboardActs folderActs where
    "NewAccessControlDashboardPermissionFilter deps usr permissionLevel queryType feats =
       buildClauses deps
         \<lparr>user = usr, dashboardActions = dashboardActs, folderActions = folderActs,
          features = feats, where' = \<lparr>str = [], params = []\<rparr>, recQueries = []\<rparr>"
    using NewAccessControlDashboardPermissionFilter_buildClauses by blast
  moreover have "\<exists>f. buildClauses deps
         \<lparr>user = usr, dashboardActions = dashboardActs, folderActions = folderActs,
          features = feats, where' = \<lparr>str = [], params = []\<rparr>, recQueries = []\<rparr> = Inr f"
    using assms by (intro buildClauses_returns) simp
  ultimately show ?thesis by simp
qed

lemma NewAccessControlDashboardPermissionFilter_balanced:
  assumes "NewAccessControlDashboardPermissionFilter deps usr permissionLevel queryType feats =
             Inr f"
    and "\<forall>u. usr = Some u \<longrightarrow>
           placeholders (fst (UserRolesFilter deps (OrgID u) (UserID u) (Teams u)
                                (GetOrgRoles deps u))) =
           length (snd (UserRolesFilter deps (OrgID u) (UserID u) (Teams u)
                          (GetOrgRoles deps u)))"
  shows "placeholders (fst (With f) @ fst (Where f)) = length (snd (With f) @ snd (Where f))"
proof -
  obtain dashboardActs folderActs where
    "NewAccessControlDashboardPermissionFilter deps usr permissionLevel queryType feats =
       buildClauses deps
         \<lparr>user = usr, dashboardActions = dashboardActs, folderActions = folderActs,
          features = feats, where' = \<lparr>str = [], params = []\<rparr>, recQueries = []\<rparr>"
    using NewAccessControlDashboardPermissionFilter_buildClauses by blast
  with assms(1) have b: "buildClauses deps
         \<lparr>user = usr, dashboardActions = dashboardActs, folderActions = folderActs,
          features = feats, where' = \<lparr>str = [], params = []\<rparr>, recQueries = []\<rparr> = Inr f"
    by simp
  have "placeholders (str (where' f)) = length (params (where' f)) \<and>
        (\<forall>c \<in> set (recQueries f). placeholders (str c) = length (params c))"
    using assms(2) by (intro buildClauses_balanced [OF b]) simp_all
  then show ?thesis
    using With_balanced [of f] by (simp add: Where_def)
qed

text \<open>
  C1. The number of \<open>?\<close> placeholders in the preamble text of \<open>With\<close> followed by the
  predicate text of \<open>Where\<close> equals the number of parameters of \<open>With\<close> and \<open>Where\<close>
  together, for every user (nil or not), permission level, query type and feature
  toggles for which the constructor returns, and it returns whenever the feature toggles
  are not nil. Likewise, whenever the legacy \<open>Where\<close> returns, the number of placeholders
  of its text is the length of its parameter list, and it returns whenever the dialect
  is not nil. The two collaborators are taken as they are specified: the text and the
  parameters that the role resolver returns for the user agree in number, and the
  dialect's spelling of \<open>false\<close> holds no placeholder.
\<close>

theorem placeholders_match_parameters:
  assumes "\<forall>u. usr = Some u \<longrightarrow>
           placeholders (fst (UserRolesFilter deps (OrgID u) (UserID u) (Teams u)
                                (GetOrgRoles deps u))) =
           length (snd (UserRolesFilter deps (OrgID u) (UserID u) (Teams u)
                          (GetOrgRoles deps u)))"
    and "\<forall>b. Dialect d = Some b \<longrightarrow> placeholders (b False) = 0"
  shows "(\<forall>f. NewAccessControlDashboardPermissionFilter deps usr permissionLevel queryType
               feats = Inr f \<longrightarrow>
            placeholders (fst (With f) @ fst (Where f)) =
              length (snd (With f) @ snd (Where f)))
       \<and> (feats \<noteq> None \<longrightarrow>
            (\<exists>f. NewAccessControlDashboardPermissionFilter deps usr permissionLevel queryType
                   feats = Inr f))
       \<and> (\<forall>sql ps. DashboardPermissionFilter_Where deps d = Inr (sql, ps) \<longrightarrow>
            placeholders sql = length ps)
       \<and> (Dialect d \<noteq> None \<longrightarrow>
            (\<exists>sql ps. DashboardPermissionFilter_Where deps d = Inr (sql, ps)))"
proof (intro conjI allI impI)
  fix f
  assume "NewAccessControlDashboardPermissionFilter deps usr permissionLevel queryType feats =
            Inr f"
  then show "placeholders (fst (With f) @ fst (Where f)) =
      length (snd (With f) @ snd (Where f))"
    using assms(1) by (rule NewAccessControlDashboardPermissionFilter_balanced)
next
  assume "feats \<noteq> None"
  then show "\<exists>f. NewAccessControlDashboardPermissionFilter deps usr permissionLevel queryType
                   feats = Inr f"
    by (rule NewAccessControlDashboardPermissionFilter_returns)
next
  fix sql ps
  assume "DashboardPermissionFilter_Where deps d = Inr (sql, ps)"
  then show "placeholders sql = length ps"
    using assms(2) by (rule legacy_balanced)
next
  assume "Dialect d \<noteq> None"
  then obtain b where "Dialect d = Some b" by auto
  then show "\<exists>sql ps. DashboardPermissionFilter_Where deps d = Inr (sql, ps)"
    by (rule legacy_returns)
qed

theorem placeholders_match_parameters_witness:
  "(\<exists>f. NewAccessControlDashboardPermissionFilter exampleDeps (Some exampleUser) 2 []
           (Some (\<lambda>flag. True)) = Inr f
        \<and> placeholders (fst (With f) @ fst (Where f)) = length (snd (With f) @ snd (Where f)))
   \<and> (\<exists>sql ps. DashboardPermissionFilter_Where exampleDeps exampleLegacy = Inr (sql, ps)
        \<and> placeholders sql = length ps)"
proof -
  have h1: "\<forall>u. Some exampleUser = Some u \<longrightarrow>
      placeholders (fst (UserRolesFilter exampleDeps (OrgID u) (UserID u) (Teams u)
                           (GetOrgRoles exampleDeps u))) =
      length (snd (UserRolesFilter exampleDeps (OrgID u) (UserID u) (Teams u)
                     (GetOrgRoles exampleDeps u)))"
    by (simp add: exampleDeps_def)
  have h2: "\<forall>b. Dialect exampleLegacy = Some b \<longrightarrow> placeholders (b False) = 0"
    by (simp add: exampleLegacy_def)
  have h3: "Some (\<lambda>flag::string. True) \<noteq> None" by simp
  have h4: "Dialect exampleLegacy \<noteq> None" by (simp add: exampleLegacy_def)
  from placeholders_match_parameters [OF h1 h2, of 2 "[]" "Some (\<lambda>flag. True)"] h3 h4
  show ?thesis by blast
qed

subsection \<open>Branches covered by wildcards\<close>

lemma buildClauses_covered:
  assumes "user f = Some u" and "orgPermissions u \<noteq> None"
    and "dashboardActions f \<noteq> []" and "folderActions f \<noteq> []"
    and "\<forall>a \<in> set (dashboardActions f).
           covered deps (orgPermissions u)
             [WildcardsFromPrefix deps (ScopeDashboardsPrefix deps),
              WildcardsFromPrefix deps (ScopeFoldersPrefix deps)] a"
    and "\<forall>a \<in> set (folderActions f).
           covered deps (orgPermissions u)
             [WildcardsFromPrefix deps (ScopeFoldersPrefix deps)] a"
  shows "buildClauses deps f =
           Inr (f\<lparr>where' := \<lparr>str = ''(NOT dashboard.is_folder OR dashboard.is_folder)'',
                             params = []\<rparr>\<rparr>)"
proof -
  from assms(2) obtain perms where perms: "orgPermissions u = Some perms" by auto
  then obtain pm where pm: "Permissions u = Some pm"
    by (auto simp: orgPermissions_def split: option.splits)
  note d = dashboardBranch_covered [OF assms(3) actionsToCheck_all_covered [OF assms(5)]]
  note g = folderBranch_covered [OF assms(4) actionsToCheck_all_covered [OF assms(6)]]
  have "buildClauses deps f =
      pbind (dashboardBranch deps (orgPermissions u)
               (WildcardsFromPrefix deps (ScopeDashboardsPrefix deps))
               (WildcardsFromPrefix deps (ScopeFoldersPrefix deps))
               ('' AND role_id IN(SELECT id FROM role '' @
                  fst (UserRolesFilter deps (OrgID u) (UserID u) (Teams u) (GetOrgRoles deps u)) @
                  '') '')
               (snd (UserRolesFilter deps (OrgID u) (UserID u) (Teams u) (GetOrgRoles deps u)))
               (f, \<lparr>builder = ''('', args = [], permSelector = [], permSelectorArgs = []\<rparr>))
        (\<lambda>(f1, l1).
      pbind (folderBranch deps (orgPermissions u)
               (WildcardsFromPrefix deps (ScopeFoldersPrefix deps))
               ('' AND role_id IN(SELECT id FROM role '' @
                  fst (UserRolesFilter deps (OrgID u) (UserID u) (Teams u) (GetOrgRoles deps u)) @
                  '') '')
               (snd (UserRolesFilter deps (OrgID u) (UserID u) (Teams u) (GetOrgRoles deps u)))
               (f1, recycle l1))
        (\<lambda>(f2, l2).
           Inr (f2\<lparr>where' := \<lparr>str = builder l2 @ '')'', params = args l2\<rparr>\<rparr>)))"
    using assms(1) perms pm by (simp add: buildClauses_def Let_def split_beta)
  also have "\<dots> = Inr (f\<lparr>where' := \<lparr>str = ''(NOT dashboard.is_folder OR dashboard.is_folder)'',
                             params = []\<rparr>\<rparr>)"
    using assms(3) by (simp add: d g pbind_def recycle_def)
  finally show ?thesis .
qed

text \<open>
  C5. When every action of a non-empty required-action set has a granted scope contained
  by a wildcard, the branch writes exactly the type-tag condition, \<open>NOT dashboard.is_folder\<close>
  for the dashboards and \<open>dashboard.is_folder\<close> for the folders (after the \<open>OR\<close> that
  joins it to a dashboard branch), and adds no parameter and no recursive query
  definition. With both sets covered the compiled predicate is
  \<open>(NOT dashboard.is_folder OR dashboard.is_folder)\<close> with no parameters.
\<close>

theorem covered_branch_is_type_tag:
  "(dashboardActions f \<noteq> [] \<and>
    (\<forall>a \<in> set (dashboardActions f). covered deps permissions [dw, fw] a) \<longrightarrow>
      dashboardBranch deps permissions dw fw rolesFilter roleParams (f, l) =
        Inr (f, l\<lparr>builder := builder l @ ''NOT dashboard.is_folder''\<rparr>))
   \<and> (folderActions f \<noteq> [] \<and>
      (\<forall>a \<in> set (folderActions f). covered deps permissions [fw] a) \<longrightarrow>
      folderBranch deps permissions fw rolesFilter roleParams (f, l) =
        Inr (f, l\<lparr>builder := builder l @
                   (if dashboardActions f \<noteq> [] then '' OR '' else []) @
                   ''dashboard.is_folder''\<rparr>))
   \<and> (user f = Some u \<and> orgPermissions u \<noteq> None \<and>
      dashboardActions f \<noteq> [] \<and> folderActions f \<noteq> [] \<and>
      (\<forall>a \<in> set (dashboardActions f).
         covered deps (orgPermissions u)
           [WildcardsFromPrefix deps (ScopeDashboardsPrefix deps),
            WildcardsFromPrefix deps (ScopeFoldersPrefix deps)] a) \<and>
      (\<forall>a \<in> set (folderActions f).
         covered deps (orgPermissions u)
           [WildcardsFromPrefix deps (ScopeFoldersPrefix deps)] a) \<longrightarrow>
      buildClauses deps f =
        Inr (f\<lparr>where' := \<lparr>str = ''(NOT dashboard.is_folder OR dashboard.is_folder)'',
                          params = []\<rparr>\<rparr>))"
proof (intro conjI impI)
  assume "dashboardActions f \<noteq> [] \<and>
    (\<forall>a \<in> set (dashboardActions f). covered deps permissions [dw, fw] a)"
  then show "dashboardBranch deps permissions dw fw rolesFilter roleParams (f, l) =
        Inr (f, l\<lparr>builder := builder l @ ''NOT dashboard.is_folder''\<rparr>)"
    by (intro dashboardBranch_covered actionsToCheck_all_covered) simp_all
next
  assume "folderActions f \<noteq> [] \<and>
      (\<forall>a \<in> set (folderActions f). covered deps permissions [fw] a)"
  then show "folderBranch deps permissions fw rolesFilter roleParams (f, l) =
        Inr (f, l\<lparr>builder := builder l @
                   (if dashboardActions f \<noteq> [] then '' OR '' else []) @
                   ''dashboard.is_folder''\<rparr>)"
    by (intro folderBranch_covered actionsToCheck_all_covered) simp_all
next
  assume "user f = Some u \<and> orgPermissions u \<noteq> None \<and>
      dashboardActions f \<noteq> [] \<and> folderActions f \<noteq> [] \<and>
      (\<forall>a \<in> set (dashboardActions f).
         covered deps (orgPermissions u)
           [WildcardsFromPrefix deps (ScopeDashboardsPrefix deps),
            WildcardsFromPrefix deps (ScopeFoldersPrefix deps)] a) \<and>
      (\<forall>a \<in> set (folderActions f).
         covered deps (orgPermissions u)
           [WildcardsFromPrefix deps (ScopeFoldersPrefix deps)] a)"
  then show "buildClauses deps f =
        Inr (f\<lparr>where' := \<lparr>str = ''(NOT dashboard.is_folder OR dashboard.is_folder)'',
                          params = []\<rparr>\<rparr>)"
    using buildClauses_covered [of f u deps] by blast
qed

theorem covered_branch_is_type_tag_witness:
  "buildClauses exampleDeps
     \<lparr>user = Some exampleWildcardUser, dashboardActions = [''dashboards:read''],
      folderActions = [''folders:read''], features = None,
      where' = \<lparr>str = [], params = []\<rparr>, recQueries = []\<rparr> =
   Inr \<lparr>user = Some exampleWildcardUser, dashboardActions = [''dashboards:read''],
        folderActions = [''folders:read''], features = None,
        where' = \<lparr>str = ''(NOT dashboard.is_folder OR dashboard.is_folder)'', params = []\<rparr>,
        recQueries = []\<rparr>"
proof -
  have perms: "orgPermissions exampleWildcardUser =
      Some [''dashboards:read'' \<mapsto> [''dashboards:uid:*''],
            ''folders:read'' \<mapsto> [''folders:uid:*'']]"
    by (simp add: orgPermissions_def exampleWildcardUser_def)
  have d: "covered exampleDeps (orgPermissions exampleWildcardUser)
           [WildcardsFromPrefix exampleDeps (ScopeDashboardsPrefix exampleDeps),
            WildcardsFromPrefix exampleDeps (ScopeFoldersPrefix exampleDeps)]
           ''dashboards:read''"
    unfolding perms by (simp add: covered_def scopesOf_def exampleDeps_def)
  have g: "covered exampleDeps (orgPermissions exampleWildcardUser)
           [WildcardsFromPrefix exampleDeps (ScopeFoldersPrefix exampleDeps)]
           ''folders:read''"
    unfolding perms by (simp add: covered_def scopesOf_def exampleDeps_def)
  have n: "orgPermissions exampleWildcardUser \<noteq> None"
    unfolding perms by simp
  from covered_branch_is_type_tag [of
      "\<lparr>user = Some exampleWildcardUser, dashboardActions = [''dashboards:read''],
        folderActions = [''folders:read''], features = None,
        where' = \<lparr>str = [], params = []\<rparr>, recQueries = []\<rparr>"
      exampleDeps _ _ _ _ _ _ exampleWildcardUser] d g n
  show ?thesis by simp
qed

subsection \<open>The action sets of the constructor\<close>

text \<open>
  C10. For a query type that is none of the folder, dashboard and alert-folder types, the
  constructor compiles the filter with the action sets of the mixed case: the folder
  actions are \<open>ActionFoldersRead\<close> and the dashboard actions \<open>ActionDashboardsRead\<close>, with
  \<open>ActionDashboardsCreate\<close> and \<open>ActionDashboardsWrite\<close> added when the permission level
  is above \<open>PERMISSION_VIEW\<close>. The filter it returns carries these sets, and it returns
  whenever the feature toggles are not nil: the unrecognized type is not an error.
\<close>

theorem unrecognized_query_type_is_mixed:
  assumes "queryType \<noteq> TypeFolder deps"
    and "queryType \<noteq> TypeDashboard deps"
    and "queryType \<noteq> TypeAlertFolder deps"
  shows "NewAccessControlDashboardPermissionFilter deps usr permissionLevel queryType feats =
           buildClauses deps
             \<lparr>user = usr,
              dashboardActions = [ActionDashboardsRead deps] @
                (if permissionLevel > PERMISSION_VIEW deps then [ActionDashboardsWrite deps]
                 else []),
              folderActions = [ActionFoldersRead deps] @
                (if permissionLevel > PERMISSION_VIEW deps then [ActionDashboardsCreate deps]
                 else []),
              features = feats, where' = \<lparr>str = [], params = []\<rparr>, recQueries = []\<rparr>
       \<and> (\<forall>f. NewAccessControlDashboardPermissionFilter deps usr permissionLevel queryType
                feats = Inr f \<longrightarrow>
              folderActions f = [ActionFoldersRead deps] @
                (if permissionLevel > PERMISSION_VIEW deps then [ActionDashboardsCreate deps]
                 else []) \<and>
              dashboardActions f = [ActionDashboardsRead deps] @
                (if permissionLevel > PERMISSION_VIEW deps then [ActionDashboardsWrite deps]
                 else []))
       \<and> (feats \<noteq> None \<longrightarrow>
            (\<exists>f. NewAccessControlDashboardPermissionFilter deps usr permissionLevel queryType
                   feats = Inr f))"
proof -
  have eq: "NewAccessControlDashboardPermissionFilter deps usr permissionLevel queryType feats =
           buildClauses deps
             \<lparr>user = usr,
              dashboardActions = [ActionDashboardsRead deps] @
                (if permissionLevel > PERMISSION_VIEW deps then [ActionDashboardsWrite deps]
                 else []),
              folderActions = [ActionFoldersRead deps] @
                (if permissionLevel > PERMISSION_VIEW deps then [ActionDashboardsCreate deps]
                 else []),
              features = feats, where' = \<lparr>str = [], params = []\<rparr>, recQueries = []\<rparr>"
    using assms by (simp add: NewAccessControlDashboardPermissionFilter_def Let_def)
  have "folderActions f = [ActionFoldersRead deps] @
                (if permissionLevel > PERMISSION_VIEW deps then [ActionDashboardsCreate deps]
                 else []) \<and>
        dashboardActions f = [ActionDashboardsRead deps] @
                (if permissionLevel > PERMISSION_VIEW deps then [ActionDashboardsWrite deps]
                 else [])"
    if "NewAccessControlDashboardPermissionFilter deps usr permissionLevel queryType feats =
          Inr f" for f
    using buildClauses_fields [OF that [unfolded eq]] by simp
  moreover have "feats \<noteq> None \<longrightarrow>
            (\<exists>f. NewAccessControlDashboardPermissionFilter deps usr permissionLevel queryType
                   feats = Inr f)"
    using NewAccessControlDashboardPermissionFilter_returns by blast
  ultimately show ?thesis using eq by blast
qed

theorem unrecognized_query_type_is_mixed_witness:
  "\<exists>f. NewAccessControlDashboardPermissionFilter exampleDeps (Some exampleUser) 2
          ''no-such-type'' (Some (\<lambda>flag. False)) = Inr f
       \<and> folderActions f = [''folders:read'', ''dashboards:create'']
       \<and> dashboardActions f = [''dashboards:read'', ''dashboards:write'']"
proof -
  have h: "''no-such-type'' \<noteq> TypeFolder exampleDeps"
    "''no-such-type'' \<noteq> TypeDashboard exampleDeps"
    "''no-such-type'' \<noteq> TypeAlertFolder exampleDeps"
    by (simp_all add: exampleDeps_def)
  have c: "ActionFoldersRead exampleDeps = ''folders:read''"
    "ActionDashboardsCreate exampleDeps = ''dashboards:create''"
    "ActionDashboardsRead exampleDeps = ''dashboards:read''"
    "ActionDashboardsWrite exampleDeps = ''dashboards:write''"
    "PERMISSION_VIEW exampleDeps = 1"
    by (simp_all add: exampleDeps_def)
  note t = unrecognized_query_type_is_mixed [OF h, of "Some exampleUser" 2
      "Some (\<lambda>flag. False)"]
  from t obtain f where
    f: "NewAccessControlDashboardPermissionFilter exampleDeps (Some exampleUser) 2
          ''no-such-type'' (Some (\<lambda>flag. False)) = Inr f"
    by blast
  with t have "folderActions f = [''folders:read'', ''dashboards:create''] \<and>
      dashboardActions f = [''dashboards:read'', ''dashboards:write'']"
    by (simp add: c)
  with f show ?thesis by blast
qed


subsection \<open>Branches that verify their actions\<close>

lemma actionsToCheck_Nil [simp]: "actionsToCheck deps [] permissions wildcards = []"
  by (simp add: actionsToCheck_def)

lemma length_expectedParams:
  "actions \<noteq> [] \<Longrightarrow> length (expectedParams actions) = expectedPlaceholders (length actions)"
  by (simp add: expectedParams_def expectedPlaceholders_def)

lemma subquery_expected:
  assumes "actions \<noteq> []"
  shows "subqueryParams roleParams (map PString actions) = roleParams @ expectedParams actions"
    and "subqueryPlaceholders rolesFilter (map PString actions) =
           placeholders rolesFilter + expectedPlaceholders (length actions)"
proof -
  from assms have "map PString actions ! 0 = PString (actions ! 0)"
    by (simp add: nth_map)
  with assms show
    "subqueryParams roleParams (map PString actions) = roleParams @ expectedParams actions"
    by (simp add: subqueryParams_def expectedParams_def)
  from assms show "subqueryPlaceholders rolesFilter (map PString actions) =
           placeholders rolesFilter + expectedPlaceholders (length actions)"
    by (simp add: subqueryPlaceholders_def expectedPlaceholders_def)
qed

lemma actionFilter_subquery:
  assumes "actionFilter toCheck = Inr (t, A)" and "toCheck \<noteq> []"
  shows "roleParams @ A = subqueryParams roleParams toCheck"
    and "placeholders rolesFilter + placeholders t = subqueryPlaceholders rolesFilter toCheck"
  using actionFilter_count [OF assms(1)] assms(2)
  by (simp_all add: subqueryParams_def subqueryPlaceholders_def)

text \<open>The dashboard branch, started with an empty selector buffer.\<close>

lemma dashboardBranch_params:
  assumes "dashboardBranch deps permissions dw fw rolesFilter roleParams (f, l) = Inr (f', l')"
    and "permSelector l = []" and "permSelectorArgs l = []"
    and "features f = Some isEnabled"
    and "toCheck = actionsToCheck deps (dashboardActions f) permissions [dw, fw]"
  shows "\<exists>cs. recQueries f' = recQueries f @ cs \<and>
           (if isEnabled (FlagNestedFolders deps) then
              args l' = args l @ subqueryParams roleParams toCheck \<and>
              placeholders (builder l') =
                placeholders (builder l) + subqueryPlaceholders rolesFilter toCheck \<and>
              map params cs =
                (if toCheck = [] then [] else [subqueryParams roleParams toCheck]) \<and>
              map (\<lambda>c. placeholders (str c)) cs =
                (if toCheck = [] then [] else [subqueryPlaceholders rolesFilter toCheck])
            else
              args l' = args l @ subqueryParams roleParams toCheck @
                                 subqueryParams roleParams toCheck \<and>
              placeholders (builder l') =
                placeholders (builder l) + 2 * subqueryPlaceholders rolesFilter toCheck \<and>
              cs = [])"
  using assms(1)
proof (cases rule: dashboardBranch_cases)
  case none
  with assms(5) have "toCheck = []" by simp
  with none show ?thesis
    by (simp add: subqueryParams_def subqueryPlaceholders_def)
next
  case covered
  with assms(5) have "toCheck = []" by simp
  with covered show ?thesis
    by (simp add: subqueryParams_def subqueryPlaceholders_def)
next
  case (check t A isEnabled')
  from check(2) assms(5) have ne: "toCheck \<noteq> []" by simp
  from check(3) assms(5) have af: "actionFilter toCheck = Inr (t, A)" by simp
  note r = dashboardBranch_result [OF assms(1) check(1) assms(5) [symmetric] ne af assms(4)]
  note s = actionFilter_subquery(1) [OF af ne, of roleParams]
    actionFilter_subquery(2) [OF af ne, of rolesFilter]
  show ?thesis
  proof (cases "isEnabled (FlagNestedFolders deps)")
    case True
    with r assms(2,3) s ne show ?thesis
      by (simp add: recQueries_addRecQry)
  next
    case False
    with r assms(2,3) s ne show ?thesis
      by simp
  qed
qed

text \<open>The folder branch, started with an empty selector buffer.\<close>

lemma folderBranch_params:
  assumes "folderBranch deps permissions fw rolesFilter roleParams (f, l) = Inr (f', l')"
    and "permSelector l = []" and "permSelectorArgs l = []"
    and "features f = Some isEnabled"
    and "toCheck = actionsToCheck deps (folderActions f) permissions [fw]"
  shows "\<exists>cs. recQueries f' = recQueries f @ cs \<and>
           (if isEnabled (FlagNestedFolders deps) then
              args l' = args l \<and>
              placeholders (builder l') = placeholders (builder l) \<and>
              map params cs =
                (if toCheck = [] then [] else [subqueryParams roleParams toCheck]) \<and>
              map (\<lambda>c. placeholders (str c)) cs =
                (if toCheck = [] then [] else [subqueryPlaceholders rolesFilter toCheck])
            else
              args l' = args l @ subqueryParams roleParams toCheck \<and>
              placeholders (builder l') =
                placeholders (builder l) + subqueryPlaceholders rolesFilter toCheck \<and>
              cs = [])"
  using assms(1)
proof (cases rule: folderBranch_cases)
  case none
  with assms(5) have "toCheck = []" by simp
  with none show ?thesis
    by (simp add: subqueryParams_def subqueryPlaceholders_def)
next
  case covered
  with assms(5) have "toCheck = []" by simp
  with covered show ?thesis
    by (simp add: subqueryParams_def subqueryPlaceholders_def)
next
  case (check t A isEnabled')
  from check(2) assms(5) have ne: "toCheck \<noteq> []" by simp
  from check(3) assms(5) have af: "actionFilter toCheck = Inr (t, A)" by simp
  note r = folderBranch_result [OF assms(1) check(1) assms(5) [symmetric] ne af assms(4)]
  note s = actionFilter_subquery(1) [OF af ne, of roleParams]
    actionFilter_subquery(2) [OF af ne, of rolesFilter]
  show ?thesis
  proof (cases "isEnabled (FlagNestedFolders deps)")
    case True
    with r assms(2,3) s ne show ?thesis
      by (simp add: recQueries_addRecQry)
  next
    case False
    with r assms(2,3) s ne show ?thesis
      by simp
  qed
qed

text \<open>The whole compilation: the parameters and placeholders of the predicate and of the
  recursive query definitions, from the lists that the wildcard resolver returns for the
  two action sets.\<close>

lemma buildClauses_params:
  assumes "user f = Some u" and "orgPermissions u \<noteq> None"
    and "features f = Some isEnabled"
    and "UserRolesFilter deps (OrgID u) (UserID u) (Teams u) (GetOrgRoles deps u) =
           (flt, roleParams)"
    and "rolesFilter = '' AND role_id IN(SELECT id FROM role '' @ flt @ '') ''"
    and "toCheckD = actionsToCheck deps (dashboardActions f) (orgPermissions u)
           [WildcardsFromPrefix deps (ScopeDashboardsPrefix deps),
            WildcardsFromPrefix deps (ScopeFoldersPrefix deps)]"
    and "toCheckF = actionsToCheck deps (folderActions f) (orgPermissions u)
           [WildcardsFromPrefix deps (ScopeFoldersPrefix deps)]"
  shows "\<exists>f' cs. buildClauses deps f = Inr f' \<and> recQueries f' = recQueries f @ cs \<and>
           (if isEnabled (FlagNestedFolders deps) then
              params (where' f') = subqueryParams roleParams toCheckD \<and>
              placeholders (str (where' f')) = subqueryPlaceholders rolesFilter toCheckD \<and>
              map params cs =
                (if toCheckD = [] then [] else [subqueryParams roleParams toCheckD]) @
                (if toCheckF = [] then [] else [subqueryParams roleParams toCheckF]) \<and>
              map (\<lambda>c. placeholders (str c)) cs =
                (if toCheckD = [] then [] else [subqueryPlaceholders rolesFilter toCheckD]) @
                (if toCheckF = [] then [] else [subqueryPlaceholders rolesFilter toCheckF])
            else
              params (where' f') =
                subqueryParams roleParams toCheckD @ subqueryParams roleParams toCheckD @
                subqueryParams roleParams toCheckF \<and>
              placeholders (str (where' f')) =
                2 * subqueryPlaceholders rolesFilter toCheckD +
                subqueryPlaceholders rolesFilter toCheckF \<and>
              cs = [])"
proof -
  from assms(3) have "features f \<noteq> None" by simp
  then obtain f' where b: "buildClauses deps f = Inr f'"
    using buildClauses_returns [of f deps] by blast
  from b show ?thesis
  proof (cases rule: buildClauses_cases)
    case deny
    with assms(1,2) show ?thesis by simp
  next
    case (run u0 flt0 roleParams0 f1 l1 f2 l2)
    from run(1) assms(1) have u0: "u0 = u" by simp
    with run(3) assms(4) have r0: "flt0 = flt" "roleParams0 = roleParams" by simp_all
    from run(4) u0 r0 assms(5)
    have d: "dashboardBranch deps (orgPermissions u)
         (WildcardsFromPrefix deps (ScopeDashboardsPrefix deps))
         (WildcardsFromPrefix deps (ScopeFoldersPrefix deps)) rolesFilter roleParams
         (f, \<lparr>builder = ''('', args = [], permSelector = [], permSelectorArgs = []\<rparr>) =
       Inr (f1, l1)"
      by simp
    from run(5) u0 r0 assms(5)
    have g: "folderBranch deps (orgPermissions u)
         (WildcardsFromPrefix deps (ScopeFoldersPrefix deps)) rolesFilter roleParams
         (f1, recycle l1) = Inr (f2, l2)"
      by simp
    from dashboardBranch_fields [OF d] assms(3,7)
    have f1: "features f1 = Some isEnabled"
      "toCheckF = actionsToCheck deps (folderActions f1) (orgPermissions u)
           [WildcardsFromPrefix deps (ScopeFoldersPrefix deps)]"
      by simp_all
    from dashboardBranch_params [OF d _ _ assms(3) assms(6)] obtain cs1 where
      c1: "recQueries f1 = recQueries f @ cs1"
      "if isEnabled (FlagNestedFolders deps) then
              args l1 = subqueryParams roleParams toCheckD \<and>
              placeholders (builder l1) = subqueryPlaceholders rolesFilter toCheckD \<and>
              map params cs1 =
                (if toCheckD = [] then [] else [subqueryParams roleParams toCheckD]) \<and>
              map (\<lambda>c. placeholders (str c)) cs1 =
                (if toCheckD = [] then [] else [subqueryPlaceholders rolesFilter toCheckD])
            else
              args l1 = subqueryParams roleParams toCheckD @
                        subqueryParams roleParams toCheckD \<and>
              placeholders (builder l1) = 2 * subqueryPlaceholders rolesFilter toCheckD \<and>
              cs1 = []"
      by auto
    from folderBranch_params [OF g _ _ f1] obtain cs2 where
      c2: "recQueries f2 = recQueries f1 @ cs2"
      "if isEnabled (FlagNestedFolders deps) then
              args l2 = args l1 \<and>
              placeholders (builder l2) = placeholders (builder l1) \<and>
              map params cs2 =
                (if toCheckF = [] then [] else [subqueryParams roleParams toCheckF]) \<and>
              map (\<lambda>c. placeholders (str c)) cs2 =
                (if toCheckF = [] then [] else [subqueryPlaceholders rolesFilter toCheckF])
            else
              args l2 = args l1 @ subqueryParams roleParams toCheckF \<and>
              placeholders (builder l2) =
                placeholders (builder l1) + subqueryPlaceholders rolesFilter toCheckF \<and>
              cs2 = []"
      by auto
    have "recQueries f' = recQueries f @ (cs1 @ cs2) \<and>
           (if isEnabled (FlagNestedFolders deps) then
              params (where' f') = subqueryParams roleParams toCheckD \<and>
              placeholders (str (where' f')) = subqueryPlaceholders rolesFilter toCheckD \<and>
              map params (cs1 @ cs2) =
                (if toCheckD = [] then [] else [subqueryParams roleParams toCheckD]) @
                (if toCheckF = [] then [] else [subqueryParams roleParams toCheckF]) \<and>
              map (\<lambda>c. placeholders (str c)) (cs1 @ cs2) =
                (if toCheckD = [] then [] else [subqueryPlaceholders rolesFilter toCheckD]) @
                (if toCheckF = [] then [] else [subqueryPlaceholders rolesFilter toCheckF])
            else
              params (where' f') =
                subqueryParams roleParams toCheckD @ subqueryParams roleParams toCheckD @
                subqueryParams roleParams toCheckF \<and>
              placeholders (str (where' f')) =
                2 * subqueryPlaceholders rolesFilter toCheckD +
                subqueryPlaceholders rolesFilter toCheckF \<and>
              cs1 @ cs2 = [])"
      using c1 c2 run(6)
      by (cases "isEnabled (FlagNestedFolders deps)") simp_all
    with b show ?thesis by blast
  qed
qed

text \<open>
  C2. When all \<open>k\<close> actions of a branch need explicit verification (the wildcard resolver
  returns all of them, \<open>k > 0\<close>), each scope-membership subquery that \<open>buildClauses\<close>
  emits for the branch carries the parameters of the role-resolver fragment followed by
  the one action when \<open>k = 1\<close>, or by the \<open>k\<close> action names and then the count \<open>k\<close>
  when \<open>k > 1\<close>, and has the placeholders of the role-resolver fragment plus \<open>1\<close>, or
  plus \<open>k + 1\<close>. The compiled filter holds exactly these, in order: without nested
  folders the predicate has the dashboard subquery, the folder selection of the
  dashboard branch (the same parameters again) and the folder subquery; with nested
  folders the predicate has the dashboard subquery, and the recursive query definitions
  hold the folder selection of the dashboard branch and the folder subquery, each with
  its own parameters only. A branch whose resolver result is empty adds nothing.
\<close>

theorem explicit_check_placeholders:
  assumes "user f = Some u" and "orgPermissions u \<noteq> None"
    and "features f = Some isEnabled"
    and "UserRolesFilter deps (OrgID u) (UserID u) (Teams u) (GetOrgRoles deps u) =
           (flt, roleParams)"
    and "rolesFilter = '' AND role_id IN(SELECT id FROM role '' @ flt @ '') ''"
    and "toCheckD = actionsToCheck deps (dashboardActions f) (orgPermissions u)
           [WildcardsFromPrefix deps (ScopeDashboardsPrefix deps),
            WildcardsFromPrefix deps (ScopeFoldersPrefix deps)]"
    and "toCheckF = actionsToCheck deps (folderActions f) (orgPermissions u)
           [WildcardsFromPrefix deps (ScopeFoldersPrefix deps)]"
  shows "(\<exists>f' cs. buildClauses deps f = Inr f' \<and> recQueries f' = recQueries f @ cs \<and>
           (if isEnabled (FlagNestedFolders deps) then
              params (where' f') = subqueryParams roleParams toCheckD \<and>
              placeholders (str (where' f')) = subqueryPlaceholders rolesFilter toCheckD \<and>
              map params cs =
                (if toCheckD = [] then [] else [subqueryParams roleParams toCheckD]) @
                (if toCheckF = [] then [] else [subqueryParams roleParams toCheckF]) \<and>
              map (\<lambda>c. placeholders (str c)) cs =
                (if toCheckD = [] then [] else [subqueryPlaceholders rolesFilter toCheckD]) @
                (if toCheckF = [] then [] else [subqueryPlaceholders rolesFilter toCheckF])
            else
              params (where' f') =
                subqueryParams roleParams toCheckD @ subqueryParams roleParams toCheckD @
                subqueryParams roleParams toCheckF \<and>
              placeholders (str (where' f')) =
                2 * subqueryPlaceholders rolesFilter toCheckD +
                subqueryPlaceholders rolesFilter toCheckF \<and>
              cs = []))
   \<and> (dashboardActions f \<noteq> [] \<and> toCheckD = map PString (dashboardActions f) \<longrightarrow>
        subqueryParams roleParams toCheckD =
          roleParams @ expectedParams (dashboardActions f) \<and>
        subqueryPlaceholders rolesFilter toCheckD =
          placeholders rolesFilter + expectedPlaceholders (length (dashboardActions f)) \<and>
        length (expectedParams (dashboardActions f)) =
          expectedPlaceholders (length (dashboardActions f)))
   \<and> (folderActions f \<noteq> [] \<and> toCheckF = map PString (folderActions f) \<longrightarrow>
        subqueryParams roleParams toCheckF =
          roleParams @ expectedParams (folderActions f) \<and>
        subqueryPlaceholders rolesFilter toCheckF =
          placeholders rolesFilter + expectedPlaceholders (length (folderActions f)) \<and>
        length (expectedParams (folderActions f)) =
          expectedPlaceholders (length (folderActions f)))"
proof (intro conjI impI)
  show "\<exists>f' cs. buildClauses deps f = Inr f' \<and> recQueries f' = recQueries f @ cs \<and>
           (if isEnabled (FlagNestedFolders deps) then
              params (where' f') = subqueryParams roleParams toCheckD \<and>
              placeholders (str (where' f')) = subqueryPlaceholders rolesFilter toCheckD \<and>
              map params cs =
                (if toCheckD = [] then [] else [subqueryParams roleParams toCheckD]) @
                (if toCheckF = [] then [] else [subqueryParams roleParams toCheckF]) \<and>
              map (\<lambda>c. placeholders (str c)) cs =
                (if toCheckD = [] then [] else [subqueryPlaceholders rolesFilter toCheckD]) @
                (if toCheckF = [] then [] else [subqueryPlaceholders rolesFilter toCheckF])
            else
              params (where' f') =
                subqueryParams roleParams toCheckD @ subqueryParams roleParams toCheckD @
                subqueryParams roleParams toCheckF \<and>
              placeholders (str (where' f')) =
                2 * subqueryPlaceholders rolesFilter toCheckD +
                subqueryPlaceholders rolesFilter toCheckF \<and>
              cs = [])"
    using assms by (rule buildClauses_params)
next
  assume "dashboardActions f \<noteq> [] \<and> toCheckD = map PString (dashboardActions f)"
  then have a: "dashboardActions f \<noteq> []" and e: "toCheckD = map PString (dashboardActions f)"
    by simp_all
  from subquery_expected(1) [OF a, of roleParams] subquery_expected(2) [OF a, of rolesFilter] e
  show "subqueryParams roleParams toCheckD =
          roleParams @ expectedParams (dashboardActions f)"
    and "subqueryPlaceholders rolesFilter toCheckD =
          placeholders rolesFilter + expectedPlaceholders (length (dashboardActions f))"
    by simp_all
  from a show "length (expectedParams (dashboardActions f)) =
          expectedPlaceholders (length (dashboardActions f))"
    by (rule length_expectedParams)
next
  assume "folderActions f \<noteq> [] \<and> toCheckF = map PString (folderActions f)"
  then have a: "folderActions f \<noteq> []" and e: "toCheckF = map PString (folderActions f)"
    by simp_all
  from subquery_expected(1) [OF a, of roleParams] subquery_expected(2) [OF a, of rolesFilter] e
  show "subqueryParams roleParams toCheckF =
          roleParams @ expectedParams (folderActions f)"
    and "subqueryPlaceholders rolesFilter toCheckF =
          placeholders rolesFilter + expectedPlaceholders (length (folderActions f))"
    by simp_all
  from a show "length (expectedParams (folderActions f)) =
          expectedPlaceholders (length (folderActions f))"
    by (rule length_expectedParams)
qed

theorem explicit_check_placeholders_witness:
  "(\<exists>f'. buildClauses exampleDeps exampleMixed = Inr f' \<and> recQueries f' = []
      \<and> params (where' f') =
          [PInt64 7, PInt64 1, PString ''dashboards:read'', PString ''dashboards:write'', PInt 2,
           PInt64 7, PInt64 1, PString ''dashboards:read'', PString ''dashboards:write'', PInt 2,
           PInt64 7, PInt64 1, PString ''dashboards:create'']
      \<and> placeholders (str (where' f')) = 13)
   \<and> (\<exists>f' c. buildClauses exampleDeps exampleNested = Inr f' \<and> recQueries f' = [c]
      \<and> params c = [PInt64 7, PInt64 1, PString ''dashboards:create'']
      \<and> placeholders (str c) = 3
      \<and> params (where' f') = [] \<and> placeholders (str (where' f')) = 0)"
proof -
  have u: "orgPermissions exampleUser \<noteq> None"
    by (simp add: orgPermissions_def exampleUser_def)
  have r: "UserRolesFilter exampleDeps (OrgID exampleUser) (UserID exampleUser)
      (Teams exampleUser) (GetOrgRoles exampleDeps exampleUser) =
      (''WHERE user_id = ? AND org_id = ?'', [PInt64 7, PInt64 1])"
    by (simp add: exampleDeps_def exampleUser_def)
  have p: "placeholders '' AND role_id IN(SELECT id FROM role WHERE user_id = ? AND org_id = ?) '' = 2"
    by simp
  have m: "user exampleMixed = Some exampleUser"
    "features exampleMixed = Some (\<lambda>flag. False)"
    "recQueries exampleMixed = []"
    by (simp_all add: exampleMixed_def)
  have md: "[PString ''dashboards:read'', PString ''dashboards:write''] =
      actionsToCheck exampleDeps (dashboardActions exampleMixed) (orgPermissions exampleUser)
        [WildcardsFromPrefix exampleDeps (ScopeDashboardsPrefix exampleDeps),
         WildcardsFromPrefix exampleDeps (ScopeFoldersPrefix exampleDeps)]"
    by code_simp
  have mf: "[PString ''dashboards:create''] =
      actionsToCheck exampleDeps (folderActions exampleMixed) (orgPermissions exampleUser)
        [WildcardsFromPrefix exampleDeps (ScopeFoldersPrefix exampleDeps)]"
    by code_simp
  have n: "user exampleNested = Some exampleUser"
    "features exampleNested = Some (\<lambda>flag. True)"
    "recQueries exampleNested = []"
    by (simp_all add: exampleNested_def)
  have nd: "[] =
      actionsToCheck exampleDeps (dashboardActions exampleNested) (orgPermissions exampleUser)
        [WildcardsFromPrefix exampleDeps (ScopeDashboardsPrefix exampleDeps),
         WildcardsFromPrefix exampleDeps (ScopeFoldersPrefix exampleDeps)]"
    by code_simp
  have nf: "[PString ''dashboards:create''] =
      actionsToCheck exampleDeps (folderActions exampleNested) (orgPermissions exampleUser)
        [WildcardsFromPrefix exampleDeps (ScopeFoldersPrefix exampleDeps)]"
    by code_simp
  have s: "subqueryParams [PInt64 7, PInt64 1]
             [PString ''dashboards:read'', PString ''dashboards:write''] =
           [PInt64 7, PInt64 1, PString ''dashboards:read'', PString ''dashboards:write'',
            PInt 2]"
    "subqueryParams [PInt64 7, PInt64 1] [PString ''dashboards:create''] =
           [PInt64 7, PInt64 1, PString ''dashboards:create'']"
    "subqueryParams [PInt64 7, PInt64 1] [] = []"
    by (simp_all add: subqueryParams_def)
  have c: "subqueryPlaceholders
             '' AND role_id IN(SELECT id FROM role WHERE user_id = ? AND org_id = ?) ''
             [PString ''dashboards:read'', PString ''dashboards:write''] = 5"
    "subqueryPlaceholders
             '' AND role_id IN(SELECT id FROM role WHERE user_id = ? AND org_id = ?) ''
             [PString ''dashboards:create''] = 3"
    "subqueryPlaceholders
             '' AND role_id IN(SELECT id FROM role WHERE user_id = ? AND org_id = ?) ''
             [] = 0"
    unfolding subqueryPlaceholders_def p by simp_all
  from explicit_check_placeholders [OF m(1) u m(2) r _ md mf,
      of "'' AND role_id IN(SELECT id FROM role WHERE user_id = ? AND org_id = ?) ''"]
  have a: "\<exists>f'. buildClauses exampleDeps exampleMixed = Inr f' \<and> recQueries f' = []
      \<and> params (where' f') =
          [PInt64 7, PInt64 1, PString ''dashboards:read'', PString ''dashboards:write'', PInt 2,
           PInt64 7, PInt64 1, PString ''dashboards:read'', PString ''dashboards:write'', PInt 2,
           PInt64 7, PInt64 1, PString ''dashboards:create'']
      \<and> placeholders (str (where' f')) = 13"
    unfolding s c m(3) by auto
  from explicit_check_placeholders [OF n(1) u n(2) r _ nd nf,
      of "'' AND role_id IN(SELECT id FROM role WHERE user_id = ? AND org_id = ?) ''"]
  have b: "\<exists>f' c. buildClauses exampleDeps exampleNested = Inr f' \<and> recQueries f' = [c]
      \<and> params c = [PInt64 7, PInt64 1, PString ''dashboards:create'']
      \<and> placeholders (str c) = 3
      \<and> params (where' f') = [] \<and> placeholders (str (where' f')) = 0"
    unfolding s c n(3) by auto
  from a b show ?thesis by blast
qed

subsection \<open>The captured parameters\<close>

lemma length_elems_valid:
  "validSlice m s \<Longrightarrow> length (elems m s) = len s"
  by (auto simp: validSlice_def elems_def split: option.splits)

lemma arrays_store_other [simp]:
  "a \<noteq> b \<Longrightarrow> arrays (store a i xs m) b = arrays m b"
  by (simp add: store_def)

lemma limit_store [simp]: "limit (store a i xs m) = limit m"
  by (simp add: store_def)

text \<open>The copy made by \<open>addRecQry\<close>: a new array that holds the caller's elements.\<close>

lemma addRecQryMem_result:
  assumes "validSlice m whereParams"
  shows "\<exists>m1. addRecQryMem queryName whereUIDSelect whereParams (recQs, m) =
           (recQs @ [\<lparr>mstr = recQryText queryName whereUIDSelect,
                      mparams = \<lparr>base = Some (limit m), off = 0, len = len whereParams,
                                 cap = len whereParams\<rparr>\<rparr>], m1) \<and>
           arrays m1 (limit m) = elems m whereParams \<and>
           limit m1 = Suc (limit m) \<and>
           (\<forall>a. a \<noteq> limit m \<longrightarrow> arrays m1 a = arrays m a)"
proof -
  have n: "length (elems m whereParams) = len whereParams"
    using assms by (rule length_elems_valid)
  have o: "base whereParams \<noteq> Some (limit m)"
    using assms by (auto simp: validSlice_def split: option.splits)
  then have e: "elems (m\<lparr>arrays := (arrays m)(limit m := replicate (len whereParams) PNil),
                        limit := Suc (limit m)\<rparr>) whereParams = elems m whereParams"
    by (auto simp: elems_def split: option.splits)
  show ?thesis
    using n by (simp add: addRecQryMem_def makeSlice_def copySlice_def Let_def e store_def)
qed

text \<open>No later operation of the caller writes to an array that its slice does not point
  to and that was allocated before.\<close>

lemma appendSlice_frame:
  assumes "appendSlice growth s xs m = (s', m')"
    and "base s \<noteq> Some a0" and "a0 < limit m"
  shows "base s' \<noteq> Some a0 \<and> a0 < limit m' \<and> arrays m' a0 = arrays m a0"
  using assms
  by (auto simp: appendSlice_def Let_def split: if_splits option.splits)

lemma addRecQryMem_frame:
  assumes "addRecQryMem queryName whereUIDSelect s (recQs, m) = (recQs', m')"
    and "a0 < limit m"
  shows "a0 < limit m' \<and> arrays m' a0 = arrays m a0 \<and> (\<exists>rest. recQs' = recQs @ rest)"
  using assms
  by (auto simp: addRecQryMem_def makeSlice_def copySlice_def Let_def)

lemma runOps_frame:
  assumes "runOps growth ops (s, recQs, m) = (s', recQs', m')"
    and "base s \<noteq> Some a0" and "a0 < limit m"
  shows "arrays m' a0 = arrays m a0 \<and> (\<exists>rest. recQs' = recQs @ rest)"
  using assms
proof (induction growth ops "(s, recQs, m)" arbitrary: s recQs m rule: runOps.induct)
  case (1 growth)
  then show ?case by simp
next
  case (2 growth ops s recQs m)
  from 2(2-4) show ?case by (intro 2(1)) simp_all
next
  case (3 growth xs ops s recQs m)
  obtain s1 m1 where a: "appendSlice growth s xs m = (s1, m1)"
    by (cases "appendSlice growth s xs m")
  from appendSlice_frame [OF a 3(3,4)]
  have f: "base s1 \<noteq> Some a0" "a0 < limit m1" "arrays m1 a0 = arrays m a0" by simp_all
  from 3(2) a have "runOps growth ops (s1, recQs, m1) = (s', recQs', m')" by simp
  from 3(1) [OF a [symmetric] this f(1,2)] f(3) show ?case by simp
next
  case (4 growth i v ops s recQs m)
  show ?case
  proof (cases "base s")
    case None
    with 4(2) show ?thesis by simp
  next
    case (Some a)
    show ?thesis
    proof (cases "i < len s")
      case True
      from Some 4(3) have ne: "a \<noteq> a0" by simp
      from 4(2) Some True
      have "runOps growth ops (s, recQs, store a (off s + i) [v] m) = (s', recQs', m')"
        by simp
      from 4(1) [OF Some True this 4(3)] 4(4) ne show ?thesis by simp
    next
      case False
      with Some 4(2) show ?thesis by simp
    qed
  qed
next
  case (5 growth queryName whereUIDSelect ops s recQs m)
  obtain recQs1 m1 where a: "addRecQryMem queryName whereUIDSelect s (recQs, m) = (recQs1, m1)"
    by (cases "addRecQryMem queryName whereUIDSelect s (recQs, m)")
  from addRecQryMem_frame [OF a 5(4)] obtain rest where
    f: "a0 < limit m1" "arrays m1 a0 = arrays m a0" "recQs1 = recQs @ rest" by blast
  from 5(2) a have "runOps growth ops (s, recQs1, m1) = (s', recQs', m')" by simp
  from 5(1) [OF a [symmetric] this 5(3) f(1)] f(2,3) show ?case by auto
qed

text \<open>On valid slices the operations on the memory are the operations on lists.\<close>

lemma appendSlice_elems:
  assumes "validSlice m s" and "appendSlice growth s xs m = (s', m')"
  shows "elems m' s' = elems m s @ xs \<and> validSlice m' s'"
proof (cases "len s + length xs \<le> cap s")
  case fits: True
  show ?thesis
  proof (cases "base s")
    case None
    with assms fits show ?thesis
      by (auto simp: appendSlice_def validSlice_def elems_def)
  next
    case (Some a)
    from assms(1) Some have v: "a < limit m" "len s \<le> cap s"
      "off s + cap s \<le> length (arrays m a)"
      by (simp_all add: validSlice_def)
    from assms(2) fits Some have s': "s' = s\<lparr>len := len s + length xs\<rparr>"
      and m': "m' = store a (off s + len s) xs m"
      by (simp_all add: appendSlice_def)
    have "arrays m' a = take (off s + len s) (arrays m a) @ xs @
        drop (off s + len s + length xs) (arrays m a)"
      by (simp add: m' store_def)
    moreover have "take (off s + len s) (arrays m a) =
        take (off s) (arrays m a) @ take (len s) (drop (off s) (arrays m a))"
      by (simp add: take_add)
    ultimately have "drop (off s) (arrays m' a) =
        take (len s) (drop (off s) (arrays m a)) @ xs @
        drop (off s + len s + length xs) (arrays m a)"
      using v by simp
    moreover have "length (take (len s) (drop (off s) (arrays m a))) = len s"
      using v by simp
    ultimately have "take (len s + length xs) (drop (off s) (arrays m' a)) =
        take (len s) (drop (off s) (arrays m a)) @ xs"
      by simp
    moreover have "length (arrays m' a) = length (arrays m a)"
      using v fits by (simp add: m' store_def)
    ultimately show ?thesis
      using v fits Some by (simp add: s' elems_def validSlice_def m')
  qed
next
  case False
  with assms(2) have "s' = \<lparr>base = Some (limit m), off = 0, len = len s + length xs,
        cap = max (len s + length xs) (growth (cap s) (len s + length xs))\<rparr>"
    and "m' = m\<lparr>arrays := (arrays m)
                 (limit m := elems m s @ xs @
                    replicate (max (len s + length xs) (growth (cap s) (len s + length xs)) -
                               (len s + length xs)) PNil),
              limit := Suc (limit m)\<rparr>"
    by (simp_all add: appendSlice_def Let_def)
  moreover have "length (elems m s) = len s"
    using assms(1) by (rule length_elems_valid)
  ultimately show ?thesis
    by (simp add: elems_def validSlice_def)
qed

text \<open>
  C7. \<open>addRecQry\<close> stores in the definition it appends a slice on a newly made array,
  distinct from the array of the slice it was passed, holding a copy of the passed
  elements (so the definition is the one that \<open>addRecQry\<close> on lists appends). Whatever
  the caller then does with its own slice (reslicing it to length zero, appending to
  it, assigning its elements, passing it to \<open>addRecQry\<close> again, in any order and number),
  the definition stays in the list and its parameters stay the elements that were
  passed.
\<close>

theorem addRecQry_captures_a_copy:
  assumes "validSlice m whereParams"
    and "addRecQryMem queryName whereUIDSelect whereParams (recQs, m) = (recQs1, m1)"
    and "runOps growth ops (whereParams, recQs1, m1) = (s, recQs2, m2)"
  shows "\<exists>c rest. recQs1 = recQs @ [c] \<and> recQs2 = recQs @ [c] @ rest
      \<and> mstr c = recQryText queryName whereUIDSelect
      \<and> base (mparams c) = Some (limit m)
      \<and> base (mparams c) \<noteq> base whereParams
      \<and> elems m1 (mparams c) = elems m whereParams
      \<and> elems m2 (mparams c) = elems m whereParams
      \<and> recQueries (addRecQry queryName whereUIDSelect (elems m whereParams) f) =
          recQueries f @ [\<lparr>str = mstr c, params = elems m2 (mparams c)\<rparr>]"
proof -
  let ?c = "\<lparr>mstr = recQryText queryName whereUIDSelect,
             mparams = \<lparr>base = Some (limit m), off = 0, len = len whereParams,
                        cap = len whereParams\<rparr>\<rparr>"
  from addRecQryMem_result [OF assms(1), of queryName whereUIDSelect recQs] assms(2)
  have r: "recQs1 = recQs @ [?c]" "arrays m1 (limit m) = elems m whereParams"
    "limit m1 = Suc (limit m)"
    by auto
  have n: "length (elems m whereParams) = len whereParams"
    using assms(1) by (rule length_elems_valid)
  have o: "base whereParams \<noteq> Some (limit m)"
    using assms(1) by (auto simp: validSlice_def split: option.splits)
  from r(3) have lt: "limit m < limit m1" by simp
  from runOps_frame [OF assms(3) o lt] obtain rest where
    fr: "arrays m2 (limit m) = arrays m1 (limit m)" "recQs2 = recQs1 @ rest"
    by blast
  have e1: "elems m1 (mparams ?c) = elems m whereParams"
    using r(2) n by (simp add: elems_def)
  have e2: "elems m2 (mparams ?c) = elems m whereParams"
    using r(2) fr(1) n by (simp add: elems_def)
  have "recQs1 = recQs @ [?c] \<and> recQs2 = recQs @ [?c] @ rest
      \<and> mstr ?c = recQryText queryName whereUIDSelect
      \<and> base (mparams ?c) = Some (limit m)
      \<and> base (mparams ?c) \<noteq> base whereParams
      \<and> elems m1 (mparams ?c) = elems m whereParams
      \<and> elems m2 (mparams ?c) = elems m whereParams
      \<and> recQueries (addRecQry queryName whereUIDSelect (elems m whereParams) f) =
          recQueries f @ [\<lparr>str = mstr ?c, params = elems m2 (mparams ?c)\<rparr>]"
    using r(1) fr(2) o e1 e2 by (simp add: recQueries_addRecQry)
  then show ?thesis by blast
qed

theorem addRecQry_captures_a_copy_witness:
  "elems (snd (snd exampleRun)) (mparams (hd (fst exampleCapture))) =
     [PInt64 7, PInt64 1, PString ''dashboards:read'']
   \<and> elems (snd (snd exampleRun)) exampleSlice =
     [PInt64 9, PInt64 2, PString ''folders:read'']
   \<and> length (fst (snd exampleRun)) = 2"
proof -
  have v: "validSlice exampleMemory exampleSlice"
    by (simp add: validSlice_def exampleMemory_def exampleSlice_def)
  have c: "addRecQryMem ''RecQry0'' ''(SELECT 1)'' exampleSlice ([], exampleMemory) =
      (fst exampleCapture, snd exampleCapture)"
    by (simp add: exampleCapture_def)
  have r: "runOps (\<lambda>oldcap need. 2 * oldcap) exampleOps
      (exampleSlice, fst exampleCapture, snd exampleCapture) =
      (fst exampleRun, fst (snd exampleRun), snd (snd exampleRun))"
    by (simp add: exampleRun_def)
  from addRecQry_captures_a_copy [OF v c r] obtain d where
    "fst exampleCapture = [d]"
    and "elems (snd (snd exampleRun)) (mparams d) = elems exampleMemory exampleSlice"
    by auto
  then have "elems (snd (snd exampleRun)) (mparams (hd (fst exampleCapture))) =
      elems exampleMemory exampleSlice"
    by simp
  moreover have "elems exampleMemory exampleSlice =
      [PInt64 7, PInt64 1, PString ''dashboards:read'']"
    by code_simp
  moreover have "elems (snd (snd exampleRun)) exampleSlice =
      [PInt64 9, PInt64 2, PString ''folders:read'']"
    by code_simp
  moreover have "length (fst (snd exampleRun)) = 2"
    by code_simp
  ultimately show ?thesis by simp
qed

end
